theory Spec2Isabelle
  imports Complex_Main "HOL-Library.AList" "HOL-Library.Log_Nat"
begin

section \<open>The fake storage driver (delfin/drivers/fake_storage/__init__.py)\<close>

text \<open>
  The driver is embedded as state-passing functions over a \<open>world\<close>: the module-level
  variables, the state of the \<open>random\<close> module, the clock, the uuid source and the list of
  durations handed to \<open>time.sleep\<close>. A call returns either the exception it raises or its
  value, together with the world it leaves behind (the world survives an exception, as the
  interpreter's state does).

  Python floats are embedded as rationals. The quotient of two integers, \<open>n / p\<close>, whose
  operands the configuration leaves unbounded, is embedded with its rounding to a double
  (\<open>py_truediv\<close>); the other float operations have small operands and their rounding is not
  modelled. Calls to the logger
  write to the logging sink only and are left out, as is the call of the base class's
  constructor (it is not part of this file). The methods that only \<open>pass\<close>, and
  \<open>list_controllers\<close>, which no statement below is about, are not embedded.
\<close>

subsection \<open>Values, exceptions\<close>

datatype exn = InvalidInput | ValueError | ZeroDivisionError | OverflowError | KeyError

datatype pyval = PyStr string | PyInt int

text \<open>A dict literal with string keys, in insertion order.\<close>

type_synonym dict = "(string \<times> pyval) list"

subsection \<open>Built-ins used by the module\<close>

text \<open>\<open>str.split(sep)\<close> with a one-character separator: every occurrence cuts.\<close>

fun py_split :: "string \<Rightarrow> char \<Rightarrow> string list" where
  "py_split [] sep = [[]]"
| "py_split (c # cs) sep =
     (if c = sep then [] # py_split cs sep
      else (case py_split cs sep of
              p # ps \<Rightarrow> (c # p) # ps
            | [] \<Rightarrow> [[c]]))"

text \<open>\<open>str(i)\<close> for an integer: its decimal digits, with a minus sign when negative.\<close>

definition digit_chr :: "nat \<Rightarrow> char" where
  "digit_chr d = ''0123456789'' ! d"

fun str_nat :: "nat \<Rightarrow> string" where
  "str_nat n = (if n < 10 then [digit_chr n] else str_nat (n div 10) @ [digit_chr (n mod 10)])"

definition py_str :: "int \<Rightarrow> string" where
  "py_str i = (if i < 0 then CHR ''-'' # str_nat (nat (- i)) else str_nat (nat i))"

text \<open>\<open>int(x)\<close> on a float: truncation towards zero.\<close>

definition py_trunc :: "rat \<Rightarrow> int" where
  "py_trunc x = (if 0 \<le> x then \<lfloor>x\<rfloor> else \<lceil>x\<rceil>)"

text \<open>
  \<open>a / b\<close> on integers: the double nearest to the exact quotient, ties to the even
  significand; \<open>ZeroDivisionError\<close> for a zero divisor, \<open>OverflowError\<close> when the result does
  not fit a double. A double is a multiple \<open>k * 2 ^ (e - 52)\<close> with \<open>k\<close> below \<open>2 ^ 53\<close>, where
  \<open>e\<close> is the binary exponent of the value, at least \<open>- 1022\<close> (below that the doubles are
  the multiples of \<open>2 ^ - 1074\<close>, down to zero) and at most 1023.
\<close>

definition round_half_even :: "rat \<Rightarrow> int" where
  "round_half_even q =
     (let f = \<lfloor>q\<rfloor>; r = q - of_int f
      in if r < 1 / 2 then f else if 1 / 2 < r then f + 1 else if even f then f else f + 1)"

text \<open>The binary exponent of \<open>a / b\<close> for positive \<open>a\<close> and \<open>b\<close>, from their bit lengths.\<close>

definition binade :: "int \<Rightarrow> int \<Rightarrow> int" where
  "binade a b =
     (let d = bitlen a - bitlen b
      in if power_int 2 d \<le> (of_int a / of_int b :: rat) then d else d - 1)"

definition nearest_double :: "int \<Rightarrow> int \<Rightarrow> rat" where
  "nearest_double a b =
     (let ulp = power_int 2 (max (binade a b) (- 1022) - 52)
      in of_int (round_half_even (of_int a / of_int b / ulp)) * ulp)"

definition py_truediv :: "int \<Rightarrow> int \<Rightarrow> exn + rat" where
  "py_truediv a b =
     (if b = 0 then Inl ZeroDivisionError
      else if a = 0 then Inr 0
      else let r = nearest_double \<bar>a\<bar> \<bar>b\<bar>
           in if 2 ^ 1024 \<le> r then Inl OverflowError else Inr (of_int (sgn a * sgn b) * r))"

text \<open>\<open>range(start, stop)\<close>.\<close>

definition py_range :: "int \<Rightarrow> int \<Rightarrow> int list" where
  "py_range start stop = [start..stop - 1]"

text \<open>
  The parsers \<open>int\<close> and \<open>float\<close> are parameters of everything that uses them
  (\<open>None\<close>: the parser raises \<open>ValueError\<close>). \<open>py_int\<close> and \<open>py_float\<close> below are the two
  built-ins on plain ASCII decimal text, an optional sign first; they serve for concrete
  inputs. (The built-ins accept more: surrounding blanks, underscores between digits,
  exponents.)
\<close>

definition digit_val :: "char \<Rightarrow> nat option" where
  "digit_val c = map_of
     [(CHR ''0'', 0), (CHR ''1'', 1), (CHR ''2'', 2), (CHR ''3'', 3), (CHR ''4'', 4),
      (CHR ''5'', 5), (CHR ''6'', 6), (CHR ''7'', 7), (CHR ''8'', 8), (CHR ''9'', 9)] c"

fun digits_nat :: "string \<Rightarrow> nat \<Rightarrow> nat option" where
  "digits_nat [] acc = Some acc"
| "digits_nat (c # cs) acc =
     (case digit_val c of None \<Rightarrow> None | Some d \<Rightarrow> digits_nat cs (10 * acc + d))"

definition py_int :: "string \<Rightarrow> int option" where
  "py_int s =
     (case s of
        [] \<Rightarrow> None
      | c # cs \<Rightarrow>
          if c = CHR ''-'' then (if cs = [] then None else map_option (\<lambda>n. - int n) (digits_nat cs 0))
          else if c = CHR ''+'' then (if cs = [] then None else map_option int (digits_nat cs 0))
          else map_option int (digits_nat s 0))"

definition unsigned_float :: "string \<Rightarrow> rat option" where
  "unsigned_float s =
     (case py_split s CHR ''.'' of
        [ip] \<Rightarrow> (if ip = [] then None else map_option of_nat (digits_nat ip 0))
      | [ip, fp] \<Rightarrow>
          (if ip = [] \<and> fp = [] then None
           else (case (digits_nat ip 0, digits_nat fp 0) of
                   (Some i, Some f) \<Rightarrow> Some (of_nat i + of_nat f / 10 ^ length fp)
                 | _ \<Rightarrow> None))
      | _ \<Rightarrow> None)"

definition py_float :: "string \<Rightarrow> rat option" where
  "py_float s =
     (case s of
        [] \<Rightarrow> None
      | c # cs \<Rightarrow>
          if c = CHR ''-'' then map_option uminus (unsigned_float cs)
          else if c = CHR ''+'' then unsigned_float cs
          else unsigned_float s)"

subsection \<open>Configuration and module-level variables\<close>

text \<open>The four options of the group \<open>fake_driver\<close> (\<open>fake_opts\<close>), with their defaults.\<close>

record conf =
  fake_pool_range :: string
  fake_volume_range :: string
  fake_api_time_range :: string
  fake_page_query_limit :: string

definition default_conf :: conf where
  "default_conf =
     \<lparr>fake_pool_range = ''1-100'', fake_volume_range = ''1-2000'',
      fake_api_time_range = ''0.1-0.5'', fake_page_query_limit = ''500''\<rparr>"

text \<open>The module-level variables that the constructor declares \<open>global\<close> and rebinds.\<close>

record globals =
  MIN_WAIT :: rat
  MAX_WAIT :: rat
  MIN_POOL :: int
  MAX_POOL :: int
  MIN_VOLUME :: int
  MAX_VOLUME :: int
  PAGE_LIMIT :: int

text \<open>Their bindings when the module body has run (lines 50 to 54).\<close>

definition module_level :: globals where
  "module_level =
     \<lparr>MIN_WAIT = 1 / 10, MAX_WAIT = 1 / 2, MIN_POOL = 1, MAX_POOL = 100,
      MIN_VOLUME = 1, MAX_VOLUME = 2000, PAGE_LIMIT = 500\<rparr>"

text \<open>The module-level variables that nothing rebinds (lines 53, 55, 56).\<close>

definition MIN_CONTROLLERS :: int where "MIN_CONTROLLERS = 1"
definition MAX_CONTROLLERS :: int where "MAX_CONTROLLERS = 5"
definition MIN_STORAGE :: int where "MIN_STORAGE = 1"
definition MAX_STORAGE :: int where "MAX_STORAGE = 10"
definition MIN_PERF_VALUES :: int where "MIN_PERF_VALUES = 1"
definition MAX_PERF_VALUES :: int where "MAX_PERF_VALUES = 4"

subsection \<open>The world, and calls that may raise\<close>

text \<open>
  \<open>rand\<close> is the sequence of raw outputs the generator of the \<open>random\<close> module will give,
  \<open>clock\<close> the sequence of readings \<open>datetime.datetime.now().timestamp()\<close> will give (in
  seconds), \<open>uuids\<close> the identifiers \<open>uuidutils.generate_uuid()\<close> will give; each call
  takes the head. \<open>slept\<close> lists the durations passed to \<open>time.sleep\<close>, oldest first.
\<close>

record world =
  gl :: globals
  rand :: "nat \<Rightarrow> nat"
  clock :: "nat \<Rightarrow> rat"
  uuids :: "nat \<Rightarrow> string"
  slept :: "rat list"

type_synonym 'a py = "world \<Rightarrow> (exn + 'a) \<times> world"

definition py_return :: "'a \<Rightarrow> 'a py" where
  "py_return x w = (Inr x, w)"

definition py_raise :: "exn \<Rightarrow> 'a py" where
  "py_raise e w = (Inl e, w)"

definition py_bind :: "'a py \<Rightarrow> ('a \<Rightarrow> 'b py) \<Rightarrow> 'b py" where
  "py_bind m f w = (case m w of (Inl e, w') \<Rightarrow> (Inl e, w') | (Inr x, w') \<Rightarrow> f x w')"

text \<open>
  \<open>for x in xs: acc = body(x, acc)\<close>: the loop variable runs through \<open>xs\<close>, the
  variables the body updates are threaded as \<open>acc\<close>, an exception leaves the loop.
\<close>

fun for_loop :: "'i list \<Rightarrow> ('i \<Rightarrow> 'a \<Rightarrow> 'a py) \<Rightarrow> 'a \<Rightarrow> 'a py" where
  "for_loop [] body acc w = (Inr acc, w)"
| "for_loop (i # is) body acc w =
     (case body i acc w of
        (Inl e, w') \<Rightarrow> (Inl e, w')
      | (Inr acc', w') \<Rightarrow> for_loop is body acc' w')"

text \<open>
  \<open>random.randint(a, b)\<close>: \<open>ValueError\<close> on an empty range, else \<open>a\<close> plus a number below
  \<open>b - a + 1\<close> taken from the next raw output.
\<close>

definition randint :: "int \<Rightarrow> int \<Rightarrow> int py" where
  "randint a b w =
     (if b < a then (Inl ValueError, w)
      else (Inr (a + int (rand w 0 mod nat (b - a + 1))), w\<lparr>rand := \<lambda>i. rand w (Suc i)\<rparr>))"

text \<open>\<open>random.uniform(a, b)\<close> is \<open>a + (b - a) * random()\<close>, \<open>random()\<close> a multiple of
  \<open>2 ^ -53\<close> below 1.\<close>

definition uniform :: "rat \<Rightarrow> rat \<Rightarrow> rat py" where
  "uniform a b w =
     (Inr (a + (b - a) * (of_nat (rand w 0 mod 2 ^ 53) / 2 ^ 53)),
      w\<lparr>rand := \<lambda>i. rand w (Suc i)\<rparr>)"

text \<open>\<open>time.sleep(secs)\<close>: \<open>ValueError\<close> on a negative duration.\<close>

definition sleep :: "rat \<Rightarrow> unit py" where
  "sleep secs w =
     (if secs < 0 then (Inl ValueError, w) else (Inr (), w\<lparr>slept := slept w @ [secs]\<rparr>))"

definition now_timestamp :: "rat py" where
  "now_timestamp w = (Inr (clock w 0), w\<lparr>clock := \<lambda>i. clock w (Suc i)\<rparr>)"

definition generate_uuid :: "string py" where
  "generate_uuid w = (Inr (uuids w 0), w\<lparr>uuids := \<lambda>i. uuids w (Suc i)\<rparr>)"

subsection \<open>get_range_val\<close>

text \<open>The body of the \<open>try\<close>: the length check raises \<open>InvalidInput\<close>, the parser
  \<open>ValueError\<close>.\<close>

definition get_range_val_try :: "string \<Rightarrow> (string \<Rightarrow> 'a option) \<Rightarrow> exn + ('a \<times> 'a)" where
  "get_range_val_try range_str t =
     (let rng = py_split range_str CHR ''-'' in
      if length rng \<noteq> 2 then Inl InvalidInput
      else (case t (rng ! 0) of
              None \<Rightarrow> Inl ValueError
            | Some min_val \<Rightarrow>
                (case t (rng ! 1) of
                   None \<Rightarrow> Inl ValueError
                 | Some max_val \<Rightarrow> Inr (min_val, max_val))))"

text \<open>\<open>except Exception\<close>: whatever the body raised, \<open>InvalidInput\<close> is raised.\<close>

definition get_range_val :: "string \<Rightarrow> (string \<Rightarrow> 'a option) \<Rightarrow> exn + ('a \<times> 'a)" where
  "get_range_val range_str t =
     (case get_range_val_try range_str t of
        Inl e \<Rightarrow> Inl InvalidInput
      | Inr v \<Rightarrow> Inr v)"

subsection \<open>wait_random\<close>

text \<open>The decorator: \<open>wait_random low high f\<close> is the function that replaces \<open>f\<close>.\<close>

definition wait_random :: "rat \<Rightarrow> rat \<Rightarrow> 'a py \<Rightarrow> 'a py" where
  "wait_random low high f =
     py_bind (randint 0 100) (\<lambda>rd.
     py_bind (sleep (low + (high - low) * of_int rd / 100)) (\<lambda>_.
     f))"

subsection \<open>FakeStorageDriver\<close>

text \<open>
  \<open>__init__\<close>: each assignment rebinds its module-level variables as soon as its right-hand
  side has been computed, so a failure keeps the earlier rebindings. The two parsers
  are the built-ins \<open>float\<close> and \<open>int\<close>.
\<close>

definition set_globals :: "(globals \<Rightarrow> globals) \<Rightarrow> unit py" where
  "set_globals upd w = (Inr (), w\<lparr>gl := upd (gl w)\<rparr>)"

definition lift_result :: "exn + 'a \<Rightarrow> 'a py" where
  "lift_result r w = (case r of Inl e \<Rightarrow> (Inl e, w) | Inr x \<Rightarrow> (Inr x, w))"

definition FakeStorageDriver_init ::
  "(string \<Rightarrow> rat option) \<Rightarrow> (string \<Rightarrow> int option) \<Rightarrow> conf \<Rightarrow> unit py" where
  "FakeStorageDriver_init float_t int_t CONF =
     py_bind (lift_result (get_range_val (fake_api_time_range CONF) float_t)) (\<lambda>(lo, hi).
     py_bind (set_globals (\<lambda>g. g\<lparr>MIN_WAIT := lo, MAX_WAIT := hi\<rparr>)) (\<lambda>_.
     py_bind (lift_result (get_range_val (fake_pool_range CONF) int_t)) (\<lambda>(lo, hi).
     py_bind (set_globals (\<lambda>g. g\<lparr>MIN_POOL := lo, MAX_POOL := hi\<rparr>)) (\<lambda>_.
     py_bind (lift_result (get_range_val (fake_volume_range CONF) int_t)) (\<lambda>(lo, hi).
     py_bind (set_globals (\<lambda>g. g\<lparr>MIN_VOLUME := lo, MAX_VOLUME := hi\<rparr>)) (\<lambda>_.
     py_bind (lift_result (case int_t (fake_page_query_limit CONF) of
                             None \<Rightarrow> Inl ValueError | Some n \<Rightarrow> Inr n)) (\<lambda>n.
     set_globals (\<lambda>g. g\<lparr>PAGE_LIMIT := n\<rparr>))))))))"

text \<open>\<open>_get_random_capacity\<close>; \<open>int(pct * total / 100)\<close> divides as floats and truncates.\<close>

definition get_random_capacity :: "(int \<times> int \<times> int) py" where
  "get_random_capacity =
     py_bind (randint 1000 2000) (\<lambda>total.
     py_bind (randint 0 100) (\<lambda>pct.
     let used = py_trunc (of_int (pct * total) / 100);
         free = total - used
     in py_return (total, used, free)))"

text \<open>
  A decorator's arguments are evaluated when the class body runs, that is when the module
  is loaded: \<open>@wait_random(MIN_WAIT, MAX_WAIT)\<close> receives the module-level bindings, and
  the decorated method keeps them.
\<close>

definition get_storage_body :: "'c \<Rightarrow> dict py" where
  "get_storage_body context =
     py_bind generate_uuid (\<lambda>sn.
     py_bind get_random_capacity (\<lambda>(total, used, free).
     py_bind (randint 2000 3000) (\<lambda>raw.
     py_bind (randint 3000 4000) (\<lambda>subscribed.
     py_return
       [(''name'', PyStr ''fake_driver''),
        (''description'', PyStr ''fake driver.''),
        (''vendor'', PyStr ''fake_vendor''),
        (''model'', PyStr ''fake_model''),
        (''status'', PyStr ''normal''),
        (''serial_number'', PyStr sn),
        (''firmware_version'', PyStr ''1.0.0''),
        (''location'', PyStr ''HK''),
        (''total_capacity'', PyInt total),
        (''used_capacity'', PyInt used),
        (''free_capacity'', PyInt free),
        (''raw_capacity'', PyInt raw),
        (''subscribed_capacity'', PyInt subscribed)]))))"

definition get_storage :: "'c \<Rightarrow> dict py" where
  "get_storage context =
     wait_random (MIN_WAIT module_level) (MAX_WAIT module_level) (get_storage_body context)"

text \<open>\<open>self.storage_id\<close> is the first argument of the methods that read it.\<close>

definition list_storage_pools_body :: "string \<Rightarrow> 'c \<Rightarrow> dict list py" where
  "list_storage_pools_body storage_id ctx w =
     py_bind (randint (MIN_POOL (gl w)) (MAX_POOL (gl w))) (\<lambda>rd_pools_count.
     for_loop (py_range 0 rd_pools_count) (\<lambda>idx pool_list.
       py_bind get_random_capacity (\<lambda>(total, used, free).
       py_return (pool_list @
         [[(''name'', PyStr (''fake_pool_'' @ py_str idx)),
           (''storage_id'', PyStr storage_id),
           (''native_storage_pool_id'', PyStr (''fake_original_id_'' @ py_str idx)),
           (''description'', PyStr ''Fake Pool''),
           (''status'', PyStr ''normal''),
           (''total_capacity'', PyInt total),
           (''used_capacity'', PyInt used),
           (''free_capacity'', PyInt free)]]))) []) w"

definition list_storage_pools :: "string \<Rightarrow> 'c \<Rightarrow> dict list py" where
  "list_storage_pools storage_id ctx =
     wait_random (MIN_WAIT module_level) (MAX_WAIT module_level)
       (list_storage_pools_body storage_id ctx)"

definition get_volume_range_body :: "string \<Rightarrow> int \<Rightarrow> int \<Rightarrow> dict list py" where
  "get_volume_range_body storage_id start end =
     for_loop (py_range start end) (\<lambda>i volume_list.
       py_bind get_random_capacity (\<lambda>(total, used, free).
       py_return (volume_list @
         [[(''name'', PyStr (''fake_vol_'' @ py_str i)),
           (''storage_id'', PyStr storage_id),
           (''description'', PyStr ''Fake Volume''),
           (''status'', PyStr ''normal''),
           (''native_volume_id'', PyStr (''fake_original_id_'' @ py_str i)),
           (''wwn'', PyStr (''fake_wwn_'' @ py_str i)),
           (''total_capacity'', PyInt total),
           (''used_capacity'', PyInt used),
           (''free_capacity'', PyInt free)]]))) []"

definition get_volume_range :: "string \<Rightarrow> int \<Rightarrow> int \<Rightarrow> dict list py" where
  "get_volume_range storage_id start end =
     wait_random (MIN_WAIT module_level) (MAX_WAIT module_level)
       (get_volume_range_body storage_id start end)"

text \<open>\<open>math.ceil(n / p)\<close>: the quotient is a double, and \<open>math.ceil\<close> gives the least
  integer that is not below it.\<close>

definition ceil_div :: "int \<Rightarrow> int \<Rightarrow> int py" where
  "ceil_div n p = py_bind (lift_result (py_truediv n p)) (\<lambda>q. py_return \<lceil>q\<rceil>)"

definition list_volumes :: "string \<Rightarrow> 'c \<Rightarrow> dict list py" where
  "list_volumes storage_id ctx w =
     py_bind (randint (MIN_VOLUME (gl w)) (MAX_VOLUME (gl w))) (\<lambda>rd_volumes_count.
     py_bind (ceil_div rd_volumes_count (PAGE_LIMIT (gl w))) (\<lambda>loops.
     for_loop (py_range 0 loops) (\<lambda>idx volume_list.
       let start = idx * PAGE_LIMIT (gl w);
           end = (if idx = loops - 1 then rd_volumes_count else (idx + 1) * PAGE_LIMIT (gl w))
       in py_bind (get_volume_range storage_id start end) (\<lambda>vs.
          py_return (volume_list @ vs))) [])) w"

text \<open>
  \<open>_get_random_performance\<close>. A series is a dict from a millisecond timestamp to a value:
  assigning to a key that is present replaces its value in place, a new key goes last.
  \<open>constants.DELFIN_ARRAY_METRICS\<close> is not part of this file: it is the parameter
  \<open>metrics\<close>.
\<close>

type_synonym series = "(int \<times> rat) list"

definition get_random_timestamp_value :: "series py" where
  "get_random_timestamp_value =
     for_loop (py_range MIN_PERF_VALUES MAX_PERF_VALUES) (\<lambda>i rtv.
       py_bind now_timestamp (\<lambda>ts.
       let timestamp = py_trunc (ts * 1000) in
       py_bind (uniform 1 100) (\<lambda>v.
       py_return (AList.update timestamp v rtv)))) []"

definition get_random_performance :: "string list \<Rightarrow> (string \<times> series) list py" where
  "get_random_performance metrics =
     for_loop metrics (\<lambda>key performance_params.
       py_bind get_random_timestamp_value (\<lambda>rtv.
       py_return (AList.update key rtv performance_params))) []"

text \<open>\<open>constants.metric_struct\<close>: a record of a name, labels and values.\<close>

record metric_struct =
  name :: string
  labels :: dict
  "values" :: series

text \<open>\<open>d[key]\<close>.\<close>

definition dict_get :: "('k \<times> 'v) list \<Rightarrow> 'k \<Rightarrow> 'v py" where
  "dict_get d key = (case map_of d key of None \<Rightarrow> py_raise KeyError | Some v \<Rightarrow> py_return v)"

definition collect_array_metrics_body ::
  "string list \<Rightarrow> 'c \<Rightarrow> string \<Rightarrow> 'i \<Rightarrow> 'h \<Rightarrow> metric_struct list py" where
  "collect_array_metrics_body metrics ctx storage_id interval is_history =
     py_bind (randint MIN_STORAGE MAX_STORAGE) (\<lambda>rd_array_count.
     let labels = [(''storage_id'', PyStr storage_id), (''resource_type'', PyStr ''array'')] in
     py_bind (get_random_performance metrics) (\<lambda>fake_metrics.
     for_loop (py_range 0 rd_array_count) (\<lambda>_ array_metrics.
       for_loop metrics (\<lambda>key array_metrics.
         py_bind (dict_get fake_metrics key) (\<lambda>vals.
         py_return (array_metrics @ [\<lparr>name = key, labels = labels, values = vals\<rparr>])))
         array_metrics) []))"

definition collect_array_metrics ::
  "string list \<Rightarrow> 'c \<Rightarrow> string \<Rightarrow> 'i \<Rightarrow> 'h \<Rightarrow> metric_struct list py" where
  "collect_array_metrics metrics ctx storage_id interval is_history =
     wait_random (MIN_WAIT module_level) (MAX_WAIT module_level)
       (collect_array_metrics_body metrics ctx storage_id interval is_history)"

subsection \<open>Notions used in the statements\<close>

text \<open>The world after the generator has given \<open>k\<close> more raw outputs.\<close>

definition skip :: "nat \<Rightarrow> world \<Rightarrow> world" where
  "skip k w = w\<lparr>rand := \<lambda>i. rand w (i + k)\<rparr>"

text \<open>The capacity triple that the next two raw outputs determine.\<close>

definition capacity_of :: "world \<Rightarrow> int \<times> int \<times> int" where
  "capacity_of w =
     (let total = 1000 + int (rand w 0 mod 1001); pct = int (rand w 1 mod 101)
      in (total, pct * total div 100, total - pct * total div 100))"

text \<open>The duration that \<open>wait_random low high\<close> sleeps: the next raw output gives the percentile.\<close>

definition delay :: "rat \<Rightarrow> rat \<Rightarrow> world \<Rightarrow> rat" where
  "delay low high w = low + (high - low) * of_int (int (rand w 0 mod 101)) / 100"

text \<open>The world that \<open>wait_random low high\<close> hands to the function it wraps: one raw output
  taken, one duration slept.\<close>

definition waited :: "rat \<Rightarrow> rat \<Rightarrow> world \<Rightarrow> world" where
  "waited low high w = (skip 1 w)\<lparr>slept := slept w @ [delay low high w]\<rparr>"

text \<open>A world for concrete runs: the module just loaded, raw outputs 0, 1, 2, ..., a clock that
  advances by a millisecond per reading.\<close>

definition world0 :: world where
  "world0 = \<lparr>gl = module_level, rand = (\<lambda>i. i), clock = (\<lambda>i. of_nat i / 1000),
             uuids = (\<lambda>i. ''uuid''), slept = []\<rparr>"

text \<open>The dict of pool \<open>idx\<close> with capacity triple \<open>c\<close>.\<close>

definition pool_entry :: "string \<Rightarrow> int \<Rightarrow> int \<times> int \<times> int \<Rightarrow> dict" where
  "pool_entry storage_id idx c =
     (\<lambda>(total, used, free).
         [(''name'', PyStr (''fake_pool_'' @ py_str idx)),
           (''storage_id'', PyStr storage_id),
           (''native_storage_pool_id'', PyStr (''fake_original_id_'' @ py_str idx)),
           (''description'', PyStr ''Fake Pool''),
           (''status'', PyStr ''normal''),
           (''total_capacity'', PyInt total),
           (''used_capacity'', PyInt used),
           (''free_capacity'', PyInt free)]) c"

text \<open>A series as the claims describe it: one entry per timestamp, between the two bounds on
  the number of points, every value between 1 and 100.\<close>

definition series_in_bounds :: "series \<Rightarrow> bool" where
  "series_in_bounds rtv \<longleftrightarrow>
     distinct (map fst rtv) \<and>
     MIN_PERF_VALUES \<le> int (length rtv) \<and> int (length rtv) \<le> MAX_PERF_VALUES \<and>
     (\<forall>(t, v)\<in>set rtv. 1 \<le> v \<and> v \<le> 100)"

text \<open>The labels of every record of \<open>collect_array_metrics\<close>.\<close>

definition array_labels :: "string \<Rightarrow> dict" where
  "array_labels storage_id = [(''storage_id'', PyStr storage_id), (''resource_type'', PyStr ''array'')]"

text \<open>The pages as the specification describes them: \<open>ceil(n / p)\<close> pages, page \<open>idx\<close> spanning the
  indices from \<open>idx * p\<close> up to, not including, \<open>(idx + 1) * p\<close> or \<open>n\<close> if that is less.\<close>

definition page_spans :: "int \<Rightarrow> int \<Rightarrow> (int \<times> int) list" where
  "page_spans n p =
     map (\<lambda>idx. (idx * p, min ((idx + 1) * p) n)) (py_range 0 \<lceil>(of_int n :: rat) / of_int p\<rceil>)"

text \<open>The lists that the successive calls of \<open>_get_volume_range\<close> on the given spans return, and
  the world after the last call.\<close>

fun volume_pages :: "string \<Rightarrow> (int \<times> int) list \<Rightarrow> world \<Rightarrow> dict list list \<times> world" where
  "volume_pages sid [] w = ([], w)"
| "volume_pages sid ((s, e) # spans) w =
     (case get_volume_range sid s e w of
        (Inr vs, w') \<Rightarrow> (case volume_pages sid spans w' of (pages, w'') \<Rightarrow> (vs # pages, w''))
      | (Inl x, w') \<Rightarrow> ([], w'))"

text \<open>The dict of volume \<open>i\<close> with capacity triple \<open>c\<close>.\<close>

definition volume_entry :: "string \<Rightarrow> int \<Rightarrow> int \<times> int \<times> int \<Rightarrow> dict" where
  "volume_entry storage_id i c =
     (\<lambda>(total, used, free).
         [(''name'', PyStr (''fake_vol_'' @ py_str i)),
           (''storage_id'', PyStr storage_id),
           (''description'', PyStr ''Fake Volume''),
           (''status'', PyStr ''normal''),
           (''native_volume_id'', PyStr (''fake_original_id_'' @ py_str i)),
           (''wwn'', PyStr (''fake_wwn_'' @ py_str i)),
           (''total_capacity'', PyInt total),
           (''used_capacity'', PyInt used),
           (''free_capacity'', PyInt free)]) c"

text \<open>A world whose first volume count is 1200.\<close>

definition world1 :: world where
  "world1 = world0\<lparr>rand := \<lambda>i. 1199 + i\<rparr>"

text \<open>A configuration with the volume range \<open>1-1\<close> and, as page limit, a 1 followed by 400
  zeros; the world once a driver has been constructed from it.\<close>

definition huge_limit :: int where
  "huge_limit = 10 ^ 400"

definition huge_page_conf :: conf where
  "huge_page_conf =
     default_conf\<lparr>fake_volume_range := ''1-1'',
                   fake_page_query_limit := ''1'' @ replicate 400 (CHR ''0'')\<rparr>"

definition huge_page_world :: world where
  "huge_page_world = snd (FakeStorageDriver_init py_float py_int huge_page_conf world0)"

text \<open>The name entry of volume \<open>i\<close>.\<close>

definition volume_name :: "int \<Rightarrow> pyval option" where
  "volume_name i = Some (PyStr (''fake_vol_'' @ py_str i))"

section \<open>The range parser\<close>

lemma py_split_nonempty: "py_split s sep \<noteq> []"
  by (induction s) (auto split: list.splits)

lemma py_split_no_sep: "sep \<notin> set s \<Longrightarrow> py_split s sep = [s]"
  by (induction s) auto

lemma py_split_at_sep: "sep \<notin> set a \<Longrightarrow> py_split (a @ sep # b) sep = a # py_split b sep"
  by (induction a) auto

lemma py_split_two: "sep \<notin> set a \<Longrightarrow> sep \<notin> set b \<Longrightarrow> py_split (a @ sep # b) sep = [a, b]"
  by (simp add: py_split_at_sep py_split_no_sep)

lemma py_split_parts_no_sep: "p \<in> set (py_split s sep) \<Longrightarrow> sep \<notin> set p"
  by (induction s arbitrary: p) (auto split: if_splits list.splits)

lemma py_split_one_conv: "py_split s sep = [b] \<Longrightarrow> s = b"
proof (induction s arbitrary: b)
  case Nil
  then show ?case by simp
next
  case (Cons d ds)
  then show ?case
    using py_split_nonempty [of ds sep] by (auto split: if_splits list.splits)
qed

text \<open>A string splits into exactly two parts when it has exactly one separator.\<close>

lemma py_split_two_conv: "py_split s sep = [a, b] \<Longrightarrow> s = a @ sep # b"
proof (induction s arbitrary: a)
  case Nil
  then show ?case by simp
next
  case (Cons c cs)
  show ?case
  proof (cases "c = sep")
    case True
    with Cons.prems have "a = []" "py_split cs sep = [b]" by auto
    then show ?thesis using True py_split_one_conv by fastforce
  next
    case False
    with Cons.prems obtain a' where "py_split cs sep = [a', b]" "a = c # a'"
      by (auto split: list.splits)
    with Cons.IH show ?thesis by simp
  qed
qed

lemma get_range_val_two:
  "py_split s CHR ''-'' = [a, b] \<Longrightarrow> t a = Some x \<Longrightarrow> t b = Some y \<Longrightarrow>
   get_range_val s t = Inr (x, y)"
  by (simp add: get_range_val_def get_range_val_try_def)

lemma get_range_val_error: "get_range_val s t = Inl e \<Longrightarrow> e = InvalidInput"
  by (auto simp: get_range_val_def split: sum.splits)

text \<open>A leading minus sign is a separator too: a negative bound cannot be written.\<close>

lemma get_range_val_negative: "get_range_val ''-1-5'' py_int = Inl InvalidInput"
  by (simp add: get_range_val_def get_range_val_try_def)

lemma range_9_2: "get_range_val ''9-2'' py_int = Inr (9, 2)"
  by (simp add: get_range_val_def get_range_val_try_def py_int_def digit_val_def)

lemma default_ranges:
  "get_range_val ''0.1-0.5'' py_float = Inr (1 / 10, 1 / 2)"
  "get_range_val ''1-100'' py_int = Inr (1, 100)"
  "get_range_val ''1-2000'' py_int = Inr (1, 2000)"
  "py_int ''500'' = Some 500"
  by (simp_all add: get_range_val_def get_range_val_try_def py_float_def unsigned_float_def
      py_int_def digit_val_def)

text \<open>
  Claim C3. A range string \<open>a-b\<close> (one separator, \<open>a\<close> before it and \<open>b\<close> after it) whose
  two halves the parser accepts gives the pair of the parsed halves; a string that does not
  split on the separator into exactly two parts, and a string one of whose two parts the
  parser rejects, give \<open>InvalidInput\<close>.
\<close>

theorem get_range_val_spec:
  "(CHR ''-'' \<notin> set a \<and> CHR ''-'' \<notin> set b \<and> t a = Some x \<and> t b = Some y
      \<longrightarrow> get_range_val (a @ ''-'' @ b) t = Inr (x, y)) \<and>
   (length (py_split s CHR ''-'') \<noteq> 2 \<longrightarrow> get_range_val s t = Inl InvalidInput) \<and>
   (py_split s CHR ''-'' = [c, d] \<and> (t c = None \<or> t d = None)
      \<longrightarrow> get_range_val s t = Inl InvalidInput)"
  by (auto simp: get_range_val_def get_range_val_try_def py_split_two split: option.splits)

theorem get_range_val_spec_witness:
  "get_range_val (''1'' @ ''-'' @ ''100'') py_int = Inr (1, 100) \<and>
   get_range_val ''1-2-3'' py_int = Inl InvalidInput \<and>
   get_range_val ''1-x'' py_int = Inl InvalidInput"
  using get_range_val_spec [of "''1''" "''100''" py_int 1 100 "''1-2-3''" "''1''" "''x''"]
    get_range_val_spec [of "''1''" "''100''" py_int 1 100 "''1-x''" "''1''" "''x''"]
  by (simp add: py_int_def digit_val_def)

section \<open>The constructor\<close>

lemma init_ok:
  assumes "get_range_val (fake_api_time_range c) ft = Inr (wl, wh)"
    and "get_range_val (fake_pool_range c) it = Inr (pl, ph)"
    and "get_range_val (fake_volume_range c) it = Inr (vl, vh)"
    and "it (fake_page_query_limit c) = Some pg"
  shows "FakeStorageDriver_init ft it c w =
           (Inr (), w\<lparr>gl := \<lparr>MIN_WAIT = wl, MAX_WAIT = wh, MIN_POOL = pl, MAX_POOL = ph,
                              MIN_VOLUME = vl, MAX_VOLUME = vh, PAGE_LIMIT = pg\<rparr>\<rparr>)"
  using assms
  by (simp add: FakeStorageDriver_init_def py_bind_def lift_result_def set_globals_def)

text \<open>
  Claim C10. The parser does not compare the two bounds: whenever the string splits into
  exactly two parts that the parser accepts, the result is the two parsed parts in the
  order of the text; \<open>9-2\<close> gives \<open>(9, 2)\<close>, and a driver whose pool range is \<open>9-2\<close> is
  constructed without error, with \<open>MIN_POOL = 9\<close> above \<open>MAX_POOL = 2\<close>.
\<close>

theorem get_range_val_no_ordering_check:
  "(py_split s CHR ''-'' = [a, b] \<and> t a = Some x \<and> t b = Some y
      \<longrightarrow> get_range_val s t = Inr (x, y)) \<and>
   get_range_val ''9-2'' py_int = Inr (9, 2) \<and>
   (\<exists>w'. FakeStorageDriver_init py_float py_int (default_conf\<lparr>fake_pool_range := ''9-2''\<rparr>) w
            = (Inr (), w') \<and>
          MIN_POOL (gl w') = 9 \<and> MAX_POOL (gl w') = 2)"
proof -
  have "FakeStorageDriver_init py_float py_int (default_conf\<lparr>fake_pool_range := ''9-2''\<rparr>) w =
          (Inr (), w\<lparr>gl := \<lparr>MIN_WAIT = 1 / 10, MAX_WAIT = 1 / 2, MIN_POOL = 9, MAX_POOL = 2,
                             MIN_VOLUME = 1, MAX_VOLUME = 2000, PAGE_LIMIT = 500\<rparr>\<rparr>)"
    by (rule init_ok) (simp_all add: default_conf_def default_ranges range_9_2)
  then show ?thesis
    by (auto simp: get_range_val_two range_9_2)
qed

theorem get_range_val_no_ordering_check_witness:
  "py_split ''7-3'' CHR ''-'' = [''7'', ''3''] \<and> py_int ''7'' = Some 7 \<and> py_int ''3'' = Some 3 \<and>
   get_range_val ''7-3'' py_int = Inr (7, 3)"
  using get_range_val_no_ordering_check [of "''7-3''" "''7''" "''3''" py_int 7 3]
  by (simp add: py_int_def digit_val_def)

section \<open>The random source and the capacity sampler\<close>

lemma skip_0: "skip 0 w = w"
  by (simp add: skip_def)

lemma skip_skip: "skip j (skip k w) = skip (k + j) w"
  by (simp add: skip_def ac_simps)

lemma skip_fields:
  "gl (skip k w) = gl w" "clock (skip k w) = clock w" "uuids (skip k w) = uuids w"
  "slept (skip k w) = slept w" "rand (skip k w) i = rand w (i + k)"
  by (simp_all add: skip_def)

lemma funpow_skip: "(skip j ^^ k) w = skip (k * j) w"
  by (induction k arbitrary: w) (simp_all add: skip_0 skip_skip funpow_swap1 add.commute)

lemma randint_ok:
  "a \<le> b \<Longrightarrow> randint a b w = (Inr (a + int (rand w 0 mod nat (b - a + 1))), skip 1 w)"
  by (simp add: randint_def skip_def)

lemma randint_bounds:
  assumes "randint a b w = (Inr n, w')"
  shows "a \<le> n \<and> n \<le> b \<and> w' = skip 1 w"
proof -
  from assms have ab: "a \<le> b" by (auto simp: randint_def split: if_splits)
  with assms have n: "n = a + int (rand w 0 mod nat (b - a + 1))" and w': "w' = skip 1 w"
    by (simp_all add: randint_ok)
  have "rand w 0 mod nat (b - a + 1) < nat (b - a + 1)" using ab by simp
  with n ab w' show ?thesis by linarith
qed

lemma randint_empty: "b < a \<Longrightarrow> randint a b w = (Inl ValueError, w)"
  by (simp add: randint_def)

lemma py_trunc_percent: "0 \<le> k \<Longrightarrow> py_trunc (of_int k / 100) = k div 100"
proof -
  assume k: "0 \<le> k"
  have "(of_int k / 100 :: rat) = of_int k / of_int 100" by simp
  then have "\<lfloor>of_int k / 100 :: rat\<rfloor> = k div 100"
    by (simp only: floor_divide_of_int_eq)
  moreover have "0 \<le> (of_int k / 100 :: rat)" using k by simp
  ultimately show ?thesis by (simp add: py_trunc_def)
qed

lemma get_random_capacity_eq: "get_random_capacity w = (Inr (capacity_of w), skip 2 w)"
proof -
  have r1: "randint 1000 2000 w = (Inr (1000 + int (rand w 0 mod 1001)), skip 1 w)"
    by (simp add: randint_ok)
  have r2: "randint 0 100 (skip 1 w) = (Inr (int (rand w 1 mod 101)), skip 2 w)"
    by (simp add: randint_ok skip_def)
  have nn: "0 \<le> int (rand w 1 mod 101) * (1000 + int (rand w 0 mod 1001))" by simp
  show ?thesis
    by (simp add: get_random_capacity_def py_bind_def r1 r2 Let_def py_return_def capacity_of_def
        py_trunc_percent [OF nn] del: of_int_mult of_int_add One_nat_def)
qed

lemma capacity_of_props:
  assumes "capacity_of w = (tc, uc, fc)"
  shows "uc + fc = tc" "0 \<le> uc" "uc \<le> tc" "1000 \<le> tc" "tc \<le> 2000"
    "fc = tc - uc" "\<exists>pct. 0 \<le> pct \<and> pct \<le> 100 \<and> uc = pct * tc div 100"
proof -
  define pct where "pct = int (rand w 1 mod 101)"
  from assms have t: "tc = 1000 + int (rand w 0 mod 1001)"
    and u: "uc = pct * tc div 100" and f: "fc = tc - uc"
    by (auto simp: capacity_of_def Let_def pct_def)
  have p: "0 \<le> pct" "pct \<le> 100" by (simp_all add: pct_def)
  have "rand w 0 mod 1001 < 1001" by simp
  then show tb: "1000 \<le> tc" "tc \<le> 2000" using t by linarith+
  show "fc = tc - uc" by (rule f)
  show "uc + fc = tc" using f by simp
  have "0 \<le> pct * tc" using p tb by simp
  then show "0 \<le> uc" using u by (simp add: pos_imp_zdiv_nonneg_iff)
  have "pct * tc \<le> 100 * tc" using p tb by (intro mult_right_mono) simp_all
  then have "pct * tc div 100 \<le> 100 * tc div 100" by (rule zdiv_mono1) simp
  then show "uc \<le> tc" using u by simp
  show "\<exists>pct. 0 \<le> pct \<and> pct \<le> 100 \<and> uc = pct * tc div 100" using p u by blast
qed

text \<open>
  Claim C4. The capacity sampler always returns a triple \<open>(total, used, free)\<close> with
  \<open>used + free = total\<close>, \<open>0 \<le> used \<le> total\<close> and \<open>1000 \<le> total \<le> 2000\<close>, where \<open>used\<close> is
  a whole percentage between 0 and 100 of \<open>total\<close>, rounded down, and \<open>free = total - used\<close>.
\<close>

theorem get_random_capacity_invariant:
  "\<exists>total used free w'.
     get_random_capacity w = (Inr (total, used, free), w') \<and>
     used + free = total \<and> 0 \<le> used \<and> used \<le> total \<and> 1000 \<le> total \<and> total \<le> 2000 \<and>
     (\<exists>pct. 0 \<le> pct \<and> pct \<le> 100 \<and> used = pct * total div 100) \<and> free = total - used"
proof -
  obtain tc uc fc where c: "capacity_of w = (tc, uc, fc)"
    by (cases "capacity_of w") auto
  from capacity_of_props [OF c] get_random_capacity_eq [of w] c show ?thesis
    by (intro exI [of _ tc] exI [of _ uc] exI [of _ fc] exI [of _ "skip 2 w"]) simp
qed

section \<open>Loops\<close>

lemma for_loop_emit:
  assumes "\<And>i acc w. body i acc w = (Inr (acc @ [g i w]), step w)"
  shows "for_loop xs body acc w =
           (Inr (acc @ map (\<lambda>k. g (xs ! k) ((step ^^ k) w)) [0..<length xs]),
            (step ^^ length xs) w)"
proof (induction xs arbitrary: acc w)
  case Nil
  show ?case by simp
next
  case (Cons x xs)
  have m: "map (\<lambda>k. g ((x # xs) ! k) ((step ^^ k) w)) [0..<Suc (length xs)] =
        g x w # map (\<lambda>k. g (xs ! k) ((step ^^ k) (step w))) [0..<length xs]"
    by (simp add: upt_conv_Cons map_Suc_upt [symmetric] funpow_swap1 del: upt_Suc)
  show ?case
    apply (subst for_loop.simps)
    apply (subst assms)
    apply (simp add: Cons.IH funpow_swap1 m del: upt_Suc)
    done
qed

lemma for_loop_concat:
  assumes "\<And>i acc w. i \<in> set xs \<Longrightarrow> body i acc w = (Inr (acc @ g i w), st i w)"
  shows "for_loop xs body acc w =
           (Inr (acc @ concat (map (\<lambda>k. g (xs ! k) (fold st (take k xs) w)) [0..<length xs])),
            fold st xs w)"
  using assms
proof (induction xs arbitrary: acc w)
  case Nil
  show ?case by simp
next
  case (Cons x xs)
  have m: "map (\<lambda>k. g ((x # xs) ! k) (fold st (take k (x # xs)) w)) [0..<Suc (length xs)] =
        g x w # map (\<lambda>k. g (xs ! k) (fold st (take k xs) (st x w))) [0..<length xs]"
    by (simp add: upt_conv_Cons map_Suc_upt [symmetric] del: upt_Suc)
  show ?case
    using Cons.prems by (simp add: Cons.IH m del: upt_Suc)
qed

lemma py_range_length: "length (py_range a b) = nat (b - a)"
  by (simp add: py_range_def)

lemma py_range_nth: "k < nat (b - a) \<Longrightarrow> py_range a b ! k = a + int k"
  by (simp add: py_range_def)

section \<open>The latency wrapper\<close>

lemma delay_between:
  assumes "low \<le> high"
  shows "low \<le> delay low high w \<and> delay low high w \<le> high"
proof -
  define r :: rat where "r = of_int (int (rand w 0 mod 101)) / 100"
  have "rand w 0 mod 101 \<le> 100" by simp
  then have "(of_nat (rand w 0 mod 101) :: rat) \<le> of_nat 100" by (simp only: of_nat_le_iff)
  then have r: "0 \<le> r" "r \<le> 1" by (simp_all add: r_def)
  have d: "delay low high w = low + (high - low) * r" by (simp add: delay_def r_def)
  have "0 \<le> (high - low) * r" using assms r by simp
  moreover have "(high - low) * r \<le> (high - low) * 1"
    using assms r by (intro mult_left_mono) simp_all
  ultimately show ?thesis using d by simp
qed

lemma delay_nonneg:
  assumes "0 \<le> low" "0 \<le> high"
  shows "0 \<le> delay low high w"
proof (cases "low \<le> high")
  case True
  with delay_between [OF True, of w] assms show ?thesis by simp
next
  case False
  define r :: rat where "r = of_int (int (rand w 0 mod 101)) / 100"
  have "rand w 0 mod 101 \<le> 100" by simp
  then have "(of_nat (rand w 0 mod 101) :: rat) \<le> of_nat 100" by (simp only: of_nat_le_iff)
  then have r: "0 \<le> r" "r \<le> 1" by (simp_all add: r_def)
  have "delay low high w = low + (high - low) * r" by (simp add: delay_def r_def)
  also have "\<dots> = low * (1 - r) + high * r" by (simp add: algebra_simps)
  finally have d: "delay low high w = low * (1 - r) + high * r" .
  have "0 \<le> low * (1 - r)" "0 \<le> high * r" using assms r by simp_all
  with d show ?thesis by simp
qed

lemma wait_random_eq:
  assumes "0 \<le> delay low high w"
  shows "wait_random low high f w = f (waited low high w)"
proof -
  have r: "randint 0 100 w = (Inr (int (rand w 0 mod 101)), skip 1 w)"
    by (simp add: randint_ok)
  have s: "sleep (delay low high w) (skip 1 w) = (Inr (), waited low high w)"
    using assms by (simp add: sleep_def waited_def skip_fields)
  show ?thesis
    unfolding wait_random_def py_bind_def r
    using s by (simp add: delay_def)
qed

lemma wait_random_negative:
  assumes "delay low high w < 0"
  shows "wait_random low high f w = (Inl ValueError, skip 1 w)"
proof -
  have r: "randint 0 100 w = (Inr (int (rand w 0 mod 101)), skip 1 w)"
    by (simp add: randint_ok)
  have s: "sleep (delay low high w) (skip 1 w) = (Inl ValueError, skip 1 w)"
    using assms by (simp add: sleep_def)
  show ?thesis
    unfolding wait_random_def py_bind_def r
    using s by (simp add: delay_def)
qed

lemma module_delay_nonneg: "0 \<le> delay (MIN_WAIT module_level) (MAX_WAIT module_level) w"
  by (rule delay_nonneg) (simp_all add: module_level_def)

lemma waited_fields:
  "gl (waited l h w) = gl w" "clock (waited l h w) = clock w" "uuids (waited l h w) = uuids w"
  "slept (waited l h w) = slept w @ [delay l h w]" "rand (waited l h w) i = rand w (i + 1)"
  by (simp_all add: waited_def skip_def)

section \<open>Pool listing\<close>

lemma list_storage_pools_body_eq:
  assumes "randint (MIN_POOL (gl w)) (MAX_POOL (gl w)) w = (Inr n, w1)"
  shows "list_storage_pools_body sid ctx w =
           (Inr (map (\<lambda>k. pool_entry sid (int k) (capacity_of (skip (2 * k) w1))) [0..<nat n]),
            skip (2 * nat n) w1)"
proof -
  let ?body = "\<lambda>idx pool_list.
       py_bind get_random_capacity (\<lambda>(total, used, free).
       py_return (pool_list @
         [[(''name'', PyStr (''fake_pool_'' @ py_str idx)),
           (''storage_id'', PyStr sid),
           (''native_storage_pool_id'', PyStr (''fake_original_id_'' @ py_str idx)),
           (''description'', PyStr ''Fake Pool''),
           (''status'', PyStr ''normal''),
           (''total_capacity'', PyInt total),
           (''used_capacity'', PyInt used),
           (''free_capacity'', PyInt free)]]))"
  have b: "\<And>i acc v. ?body i acc v = (Inr (acc @ [pool_entry sid i (capacity_of v)]), skip 2 v)"
    by (simp add: py_bind_def get_random_capacity_eq py_return_def pool_entry_def split: prod.splits)
  have "list_storage_pools_body sid ctx w = for_loop (py_range 0 n) ?body [] w1"
    by (simp add: list_storage_pools_body_def py_bind_def assms)
  also have "\<dots> = (Inr ([] @ map (\<lambda>k. pool_entry sid (py_range 0 n ! k) (capacity_of ((skip 2 ^^ k) w1)))
                        [0..<length (py_range 0 n)]), (skip 2 ^^ length (py_range 0 n)) w1)"
    by (rule for_loop_emit [OF b])
  also have "\<dots> = (Inr (map (\<lambda>k. pool_entry sid (int k) (capacity_of (skip (2 * k) w1))) [0..<nat n]),
            skip (2 * nat n) w1)"
    by (simp add: funpow_skip py_range_length py_range_nth mult.commute)
  finally show ?thesis .
qed

lemma capacity_of_cong: "rand w = rand w' \<Longrightarrow> capacity_of w = capacity_of w'"
  by (simp add: capacity_of_def)

lemma rand_skip_waited: "rand (skip k (skip 1 (waited l h w))) = rand (skip (k + 2) w)"
  by (rule ext) (simp add: skip_fields waited_fields ac_simps)

lemma pool_entry_fields:
  "map_of (pool_entry sid i (t, u, f)) ''name'' = Some (PyStr (''fake_pool_'' @ py_str i))"
  "map_of (pool_entry sid i (t, u, f)) ''native_storage_pool_id'' =
     Some (PyStr (''fake_original_id_'' @ py_str i))"
  "map_of (pool_entry sid i (t, u, f)) ''total_capacity'' = Some (PyInt t)"
  "map_of (pool_entry sid i (t, u, f)) ''used_capacity'' = Some (PyInt u)"
  "map_of (pool_entry sid i (t, u, f)) ''free_capacity'' = Some (PyInt f)"
  by (simp_all add: pool_entry_def)

lemma list_storage_pools_eq:
  assumes "MIN_POOL (gl w) \<le> MAX_POOL (gl w)"
  shows "\<exists>n w'. MIN_POOL (gl w) \<le> n \<and> n \<le> MAX_POOL (gl w) \<and>
           list_storage_pools sid ctx w =
             (Inr (map (\<lambda>k. pool_entry sid (int k) (capacity_of (skip (2 * k + 2) w))) [0..<nat n]),
              w')"
proof -
  let ?w0 = "waited (MIN_WAIT module_level) (MAX_WAIT module_level) w"
  let ?n = "MIN_POOL (gl w) + int (rand ?w0 0 mod nat (MAX_POOL (gl w) - MIN_POOL (gl w) + 1))"
  have r: "randint (MIN_POOL (gl ?w0)) (MAX_POOL (gl ?w0)) ?w0 = (Inr ?n, skip 1 ?w0)"
    using assms by (simp add: randint_ok waited_fields)
  from randint_bounds [OF r] have b: "MIN_POOL (gl w) \<le> ?n" "?n \<le> MAX_POOL (gl w)"
    by (simp_all add: waited_fields)
  have "list_storage_pools sid ctx w = list_storage_pools_body sid ctx ?w0"
    by (simp add: list_storage_pools_def wait_random_eq [OF module_delay_nonneg])
  also have "\<dots> = (Inr (map (\<lambda>k. pool_entry sid (int k) (capacity_of (skip (2 * k) (skip 1 ?w0))))
                       [0..<nat ?n]), skip (2 * nat ?n) (skip 1 ?w0))"
    by (rule list_storage_pools_body_eq [OF r])
  also have "(\<lambda>k. pool_entry sid (int k) (capacity_of (skip (2 * k) (skip 1 ?w0)))) =
             (\<lambda>k. pool_entry sid (int k) (capacity_of (skip (2 * k + 2) w)))"
    by (rule ext) (simp only: capacity_of_cong [OF rand_skip_waited])
  finally show ?thesis using b by blast
qed

text \<open>
  Claim C8, amended. When the configured pool bounds satisfy \<open>0 \<le> MIN_POOL \<le> MAX_POOL\<close>,
  \<open>list_storage_pools\<close> returns a list whose length lies between the two bounds; pool \<open>i\<close>
  of the list is named \<open>fake_pool_i\<close>, has the native id \<open>fake_original_id_i\<close> and carries
  the capacity triple sampled from raw outputs of its own (those at positions \<open>2i + 2\<close> and
  \<open>2i + 3\<close>); the list is empty only if the minimum is 0.
\<close>

theorem list_storage_pools_spec:
  assumes "0 \<le> MIN_POOL (gl w)" and "MIN_POOL (gl w) \<le> MAX_POOL (gl w)"
  shows "\<exists>pools w'.
     list_storage_pools sid ctx w = (Inr pools, w') \<and>
     MIN_POOL (gl w) \<le> int (length pools) \<and> int (length pools) \<le> MAX_POOL (gl w) \<and>
     (\<forall>i<length pools.
        map_of (pools ! i) ''name'' = Some (PyStr (''fake_pool_'' @ py_str (int i))) \<and>
        map_of (pools ! i) ''native_storage_pool_id'' =
          Some (PyStr (''fake_original_id_'' @ py_str (int i))) \<and>
        (\<exists>t u f. capacity_of (skip (2 * i + 2) w) = (t, u, f) \<and>
           map_of (pools ! i) ''total_capacity'' = Some (PyInt t) \<and>
           map_of (pools ! i) ''used_capacity'' = Some (PyInt u) \<and>
           map_of (pools ! i) ''free_capacity'' = Some (PyInt f))) \<and>
     (pools = [] \<longrightarrow> MIN_POOL (gl w) = 0)"
proof -
  from list_storage_pools_eq [OF assms(2), of sid ctx] obtain n w' where
    n: "MIN_POOL (gl w) \<le> n" "n \<le> MAX_POOL (gl w)" and
    e: "list_storage_pools sid ctx w =
             (Inr (map (\<lambda>k. pool_entry sid (int k) (capacity_of (skip (2 * k + 2) w))) [0..<nat n]),
              w')"
    by blast
  let ?pools = "map (\<lambda>k. pool_entry sid (int k) (capacity_of (skip (2 * k + 2) w))) [0..<nat n]"
  have len: "int (length ?pools) = n" using n assms(1) by simp
  have fields: "\<forall>i<length ?pools.
        map_of (?pools ! i) ''name'' = Some (PyStr (''fake_pool_'' @ py_str (int i))) \<and>
        map_of (?pools ! i) ''native_storage_pool_id'' =
          Some (PyStr (''fake_original_id_'' @ py_str (int i))) \<and>
        (\<exists>t u f. capacity_of (skip (2 * i + 2) w) = (t, u, f) \<and>
           map_of (?pools ! i) ''total_capacity'' = Some (PyInt t) \<and>
           map_of (?pools ! i) ''used_capacity'' = Some (PyInt u) \<and>
           map_of (?pools ! i) ''free_capacity'' = Some (PyInt f))"
  proof (intro allI impI)
    fix i assume "i < length ?pools"
    then have i: "i < nat n" by simp
    obtain t u f where c: "capacity_of (skip (2 * i + 2) w) = (t, u, f)"
      by (cases "capacity_of (skip (2 * i + 2) w)") auto
    have p: "?pools ! i = pool_entry sid (int i) (t, u, f)" using i c by simp
    show "map_of (?pools ! i) ''name'' = Some (PyStr (''fake_pool_'' @ py_str (int i))) \<and>
        map_of (?pools ! i) ''native_storage_pool_id'' =
          Some (PyStr (''fake_original_id_'' @ py_str (int i))) \<and>
        (\<exists>t u f. capacity_of (skip (2 * i + 2) w) = (t, u, f) \<and>
           map_of (?pools ! i) ''total_capacity'' = Some (PyInt t) \<and>
           map_of (?pools ! i) ''used_capacity'' = Some (PyInt u) \<and>
           map_of (?pools ! i) ''free_capacity'' = Some (PyInt f))"
      unfolding p using c by (simp only: pool_entry_fields) blast
  qed
  have empty: "?pools = [] \<longrightarrow> MIN_POOL (gl w) = 0"
    using n assms(1) by auto
  show ?thesis
    using e len n fields empty
    by (intro exI [of _ ?pools] exI [of _ w']) (simp only: simp_thms)
qed

lemma list_storage_pools_inverted:
  assumes "MAX_POOL (gl w) < MIN_POOL (gl w)"
  shows "fst (list_storage_pools sid ctx w) = Inl ValueError"
proof -
  let ?w0 = "waited (MIN_WAIT module_level) (MAX_WAIT module_level) w"
  have "list_storage_pools sid ctx w = list_storage_pools_body sid ctx ?w0"
    by (simp add: list_storage_pools_def wait_random_eq [OF module_delay_nonneg])
  also have "fst \<dots> = Inl ValueError"
    using assms by (simp add: list_storage_pools_body_def py_bind_def randint_empty waited_fields)
  finally show ?thesis .
qed

lemma init_inverted:
  "FakeStorageDriver_init py_float py_int (default_conf\<lparr>fake_pool_range := ''9-2''\<rparr>) w =
          (Inr (), w\<lparr>gl := \<lparr>MIN_WAIT = 1 / 10, MAX_WAIT = 1 / 2, MIN_POOL = 9, MAX_POOL = 2,
                             MIN_VOLUME = 1, MAX_VOLUME = 2000, PAGE_LIMIT = 500\<rparr>\<rparr>)"
  by (rule init_ok) (simp_all add: default_conf_def default_ranges range_9_2)

text \<open>
  As the claim C8 is written (the call always succeeds), it fails: a driver constructed
  with the pool range \<open>9-2\<close> raises \<open>ValueError\<close> from \<open>random.randint\<close>.
\<close>

theorem list_storage_pools_inverted_counterexample:
  "fst (FakeStorageDriver_init py_float py_int (default_conf\<lparr>fake_pool_range := ''9-2''\<rparr>) world0)
     = Inr () \<and>
   fst (list_storage_pools ''s'' ()
          (snd (FakeStorageDriver_init py_float py_int
                  (default_conf\<lparr>fake_pool_range := ''9-2''\<rparr>) world0)))
     = Inl ValueError"
  by (simp add: init_inverted list_storage_pools_inverted)

theorem list_storage_pools_spec_witness:
  "0 \<le> MIN_POOL (gl world0) \<and> MIN_POOL (gl world0) \<le> MAX_POOL (gl world0) \<and>
   (\<exists>pools w'. list_storage_pools ''s'' () world0 = (Inr pools, w') \<and>
      1 \<le> int (length pools) \<and> int (length pools) \<le> 100 \<and>
      map_of (pools ! 0) ''name'' = Some (PyStr ''fake_pool_0''))"
proof -
  have h: "0 \<le> MIN_POOL (gl world0)" "MIN_POOL (gl world0) \<le> MAX_POOL (gl world0)"
    by (simp_all add: world0_def module_level_def)
  from list_storage_pools_spec [OF h, of "''s''" "()"] obtain pools w' where
    p: "list_storage_pools ''s'' () world0 = (Inr pools, w')"
      "MIN_POOL (gl world0) \<le> int (length pools)" "int (length pools) \<le> MAX_POOL (gl world0)"
      "\<forall>i<length pools. map_of (pools ! i) ''name'' = Some (PyStr (''fake_pool_'' @ py_str (int i)))"
    by blast
  from p(2) have "0 < length pools" by (cases pools) (simp_all add: world0_def module_level_def)
  with p(4) have "map_of (pools ! 0) ''name'' = Some (PyStr (''fake_pool_'' @ py_str (int 0)))"
    by blast
  then have "map_of (pools ! 0) ''name'' = Some (PyStr ''fake_pool_0'')"
    by (simp add: py_str_def digit_chr_def)
  with p(1-3) h show ?thesis
    by (auto simp: world0_def module_level_def)
qed

section \<open>What the wrapper changes\<close>

lemma module_wait: "MIN_WAIT module_level = 1 / 10" "MAX_WAIT module_level = 1 / 2"
  by (simp_all add: module_level_def)

lemma wrapped_eq:
  "get_storage c w = get_storage_body c (waited (1 / 10) (1 / 2) w)"
  "list_storage_pools sid c w = list_storage_pools_body sid c (waited (1 / 10) (1 / 2) w)"
  "get_volume_range sid s e w = get_volume_range_body sid s e (waited (1 / 10) (1 / 2) w)"
  "collect_array_metrics ms c sid iv h w =
     collect_array_metrics_body ms c sid iv h (waited (1 / 10) (1 / 2) w)"
  using module_delay_nonneg [of w]
  by (simp_all add: get_storage_def list_storage_pools_def get_volume_range_def
      collect_array_metrics_def wait_random_eq module_wait)

text \<open>
  Claim C5, amended. A wrapped call returns, or raises, exactly what the function it wraps
  returns or raises on the same arguments in the world the wrapper hands over: the random
  source one raw output further and the delay slept, nothing else changed. This holds for
  every window with non-negative bounds, and so for the four wrapped methods.
\<close>

theorem wait_random_only_delays:
  "(0 \<le> low \<and> 0 \<le> high \<longrightarrow> wait_random low high f w = f (waited low high w)) \<and>
   get_storage c w = get_storage_body c (waited (1 / 10) (1 / 2) w) \<and>
   list_storage_pools sid c w = list_storage_pools_body sid c (waited (1 / 10) (1 / 2) w) \<and>
   get_volume_range sid s e w = get_volume_range_body sid s e (waited (1 / 10) (1 / 2) w) \<and>
   collect_array_metrics ms c sid iv h w =
     collect_array_metrics_body ms c sid iv h (waited (1 / 10) (1 / 2) w)"
  by (simp add: wrapped_eq wait_random_eq delay_nonneg)

theorem wait_random_only_delays_witness:
  "(0::rat) \<le> 1 / 10 \<and> (0::rat) \<le> 1 / 2 \<and>
   wait_random (1 / 10) (1 / 2) get_random_capacity world0 =
     get_random_capacity (waited (1 / 10) (1 / 2) world0)"
  using wait_random_only_delays [of "1 / 10" "1 / 2" get_random_capacity world0
      "()" "''s''" 0 0 "[]" "()" "()"]
  by simp

lemma world0_randint: "randint 1 100 world0 = (Inr 1, skip 1 world0)"
  by (simp add: randint_ok world0_def)

lemma world0_waited_randint:
  "randint 1 100 (waited (1 / 10) (1 / 2) world0) = (Inr 2, skip 1 (waited (1 / 10) (1 / 2) world0))"
  by (simp add: randint_ok waited_fields world0_def)

lemma world0_gl: "MIN_POOL (gl world0) = 1" "MAX_POOL (gl world0) = 100"
  by (simp_all add: world0_def module_level_def)

text \<open>
  As the claim C5 is written (the same random state), it fails: the wrapper takes a raw
  output before the wrapped function runs. From the same world the wrapped pool listing
  returns two pools and the unwrapped one a single pool.
\<close>

theorem wait_random_shifts_random_state_counterexample:
  "fst (list_storage_pools ''s'' () world0) \<noteq> fst (list_storage_pools_body ''s'' () world0)"
proof -
  have a: "length (projr (fst (list_storage_pools_body ''s'' () world0))) = 1"
    using list_storage_pools_body_eq [of world0 1 "skip 1 world0" "''s''" "()"]
    by (simp add: world0_gl world0_randint)
  have b: "length (projr (fst (list_storage_pools ''s'' () world0))) = 2"
    using list_storage_pools_body_eq [of "waited (1 / 10) (1 / 2) world0" 2
        "skip 1 (waited (1 / 10) (1 / 2) world0)" "''s''" "()"]
    by (simp add: wrapped_eq waited_fields world0_gl world0_waited_randint)
  show ?thesis
  proof
    assume "fst (list_storage_pools ''s'' () world0) = fst (list_storage_pools_body ''s'' () world0)"
    with a b show False by simp
  qed
qed

lemma get_storage_body_slept:
  "\<exists>d w'. get_storage_body c w = (Inr d, w') \<and> slept w' = slept w \<and> gl w' = gl w"
proof -
  let ?w1 = "w\<lparr>uuids := \<lambda>i. uuids w (Suc i)\<rparr>"
  obtain t u f where cap: "capacity_of ?w1 = (t, u, f)" by (cases "capacity_of ?w1") auto
  have r1: "randint 2000 3000 (skip 2 ?w1) =
              (Inr (2000 + int (rand (skip 2 ?w1) 0 mod 1001)), skip 1 (skip 2 ?w1))"
    by (simp add: randint_ok)
  have r2: "randint 3000 4000 (skip 1 (skip 2 ?w1)) =
              (Inr (3000 + int (rand (skip 1 (skip 2 ?w1)) 0 mod 1001)), skip 1 (skip 1 (skip 2 ?w1)))"
    by (simp add: randint_ok)
  show ?thesis
    unfolding get_storage_body_def py_bind_def generate_uuid_def
    by (simp add: get_random_capacity_eq cap r1 r2 py_return_def skip_fields del: One_nat_def)
qed

lemma get_storage_slept:
  "slept (snd (get_storage c w)) = slept w @ [delay (1 / 10) (1 / 2) w]"
  using get_storage_body_slept [of c "waited (1 / 10) (1 / 2) w"]
  by (auto simp: wrapped_eq waited_fields)

lemma range_1_2: "get_range_val ''1-2'' py_float = Inr (1, 2)"
  by (simp add: get_range_val_def get_range_val_try_def py_float_def unsigned_float_def
      digit_val_def)

lemma init_slow:
  "FakeStorageDriver_init py_float py_int (default_conf\<lparr>fake_api_time_range := ''1-2''\<rparr>) w =
          (Inr (), w\<lparr>gl := \<lparr>MIN_WAIT = 1, MAX_WAIT = 2, MIN_POOL = 1, MAX_POOL = 100,
                             MIN_VOLUME = 1, MAX_VOLUME = 2000, PAGE_LIMIT = 500\<rparr>\<rparr>)"
  by (rule init_ok) (simp_all add: default_conf_def default_ranges range_1_2)

text \<open>
  Claim C2 on the code. The duration \<open>get_storage\<close> sleeps is
  \<open>0.1 + (0.5 - 0.1) * rd / 100\<close> whatever the module-level variables hold: the decorator
  received 0.1 and 0.5 when the class body ran. A driver constructed with the time range
  \<open>1-2\<close> has \<open>MIN_WAIT = 1\<close> and \<open>MAX_WAIT = 2\<close>, and its \<open>get_storage\<close> sleeps 0.1 seconds,
  below the configured window.
\<close>

theorem configured_latency_window_unused:
  "slept (snd (get_storage c w)) =
     slept w @ [1 / 10 + (1 / 2 - 1 / 10) * of_int (int (rand w 0 mod 101)) / 100] \<and>
   fst (FakeStorageDriver_init py_float py_int
          (default_conf\<lparr>fake_api_time_range := ''1-2''\<rparr>) world0) = Inr () \<and>
   MIN_WAIT (gl (snd (FakeStorageDriver_init py_float py_int
          (default_conf\<lparr>fake_api_time_range := ''1-2''\<rparr>) world0))) = 1 \<and>
   MAX_WAIT (gl (snd (FakeStorageDriver_init py_float py_int
          (default_conf\<lparr>fake_api_time_range := ''1-2''\<rparr>) world0))) = 2 \<and>
   slept (snd (get_storage ()
     (snd (FakeStorageDriver_init py_float py_int
          (default_conf\<lparr>fake_api_time_range := ''1-2''\<rparr>) world0)))) = [1 / 10]"
  by (simp add: get_storage_slept init_slow delay_def) (simp add: world0_def)

section \<open>Performance metrics\<close>

lemma for_loop_invariant:
  assumes "I 0 acc w"
    and "\<And>k acc w. k < length xs \<Longrightarrow> I k acc w \<Longrightarrow>
           \<exists>acc' w'. body (xs ! k) acc w = (Inr acc', w') \<and> I (Suc k) acc' w'"
  shows "\<exists>acc' w'. for_loop xs body acc w = (Inr acc', w') \<and> I (length xs) acc' w'"
  using assms
proof (induction xs arbitrary: I acc w)
  case Nil
  then show ?case by simp
next
  case (Cons x xs)
  from Cons.prems(2) [of 0 acc w] Cons.prems(1) obtain acc1 w1 where
    b: "body x acc w = (Inr acc1, w1)" and i1: "I (Suc 0) acc1 w1"
    by auto
  have "\<exists>acc' w'. for_loop xs body acc1 w1 = (Inr acc', w') \<and> I (Suc (length xs)) acc' w'"
  proof (rule Cons.IH [where I = "\<lambda>k. I (Suc k)"])
    show "I (Suc 0) acc1 w1" by (rule i1)
  next
    fix k acc w
    assume "k < length xs" "I (Suc k) acc w"
    with Cons.prems(2) [of "Suc k" acc w]
    show "\<exists>acc' w'. body (xs ! k) acc w = (Inr acc', w') \<and> I (Suc (Suc k)) acc' w'"
      by simp
  qed
  with b show ?case by simp
qed

lemma length_update_le: "length (AList.update k v al) \<le> Suc (length al)"
  by (induction al) auto

lemma set_update_cases: "x \<in> set (AList.update k v al) \<Longrightarrow> x = (k, v) \<or> x \<in> set al"
  by (induction al) (auto split: if_splits)

lemma update_preserves:
  "P (k, v) \<Longrightarrow> \<forall>x\<in>set al. P x \<Longrightarrow> \<forall>x\<in>set (AList.update k v al). P x"
  by (induction al) auto

lemma uniform_1_100:
  "\<exists>v. uniform 1 100 w = (Inr v, skip 1 w) \<and> 1 \<le> v \<and> v \<le> 100"
proof -
  define r :: rat where "r = of_nat (rand w 0 mod 2 ^ 53) / 2 ^ 53"
  have "rand w 0 mod 2 ^ 53 < 2 ^ 53" by simp
  then have "(of_nat (rand w 0 mod 2 ^ 53) :: rat) < of_nat (2 ^ 53)"
    by (simp only: of_nat_less_iff)
  then have r: "0 \<le> r" "r \<le> 1" by (simp_all add: r_def)
  have u: "uniform 1 100 w = (Inr (1 + 99 * r), skip 1 w)"
    by (simp add: uniform_def r_def skip_def)
  from r have "1 \<le> 1 + 99 * r" "1 + 99 * r \<le> 100" by simp_all
  with u show ?thesis by blast
qed

lemma timestamp_step:
  "\<exists>t v w'. py_bind now_timestamp (\<lambda>ts.
       let timestamp = py_trunc (ts * 1000) in
       py_bind (uniform 1 100) (\<lambda>v.
       py_return (AList.update timestamp v rtv))) w = (Inr (AList.update t v rtv), w') \<and>
     1 \<le> v \<and> v \<le> 100"
proof -
  let ?w1 = "w\<lparr>clock := \<lambda>i. clock w (Suc i)\<rparr>"
  from uniform_1_100 [of ?w1] obtain v where
    v: "uniform 1 100 ?w1 = (Inr v, skip 1 ?w1)" "1 \<le> v" "v \<le> 100" by blast
  show ?thesis
    by (rule exI [of _ "py_trunc (clock w 0 * 1000)"], rule exI [of _ v],
        rule exI [of _ "skip 1 ?w1"])
      (simp add: py_bind_def now_timestamp_def Let_def v py_return_def)
qed

lemma get_random_timestamp_value_ok:
  "\<exists>rtv w'. get_random_timestamp_value w = (Inr rtv, w') \<and> series_in_bounds rtv \<and>
      int (length rtv) \<le> MAX_PERF_VALUES - MIN_PERF_VALUES"
proof -
  let ?I = "\<lambda>k (rtv :: series) (w :: world).
      distinct (map fst rtv) \<and> length rtv \<le> k \<and> (0 < k \<longrightarrow> rtv \<noteq> []) \<and>
      (\<forall>(t, v)\<in>set rtv. 1 \<le> v \<and> v \<le> 100)"
  have len: "length (py_range MIN_PERF_VALUES MAX_PERF_VALUES) = 3"
    by (simp add: py_range_length MIN_PERF_VALUES_def MAX_PERF_VALUES_def)
  have "\<exists>rtv w'. get_random_timestamp_value w = (Inr rtv, w') \<and>
          ?I (length (py_range MIN_PERF_VALUES MAX_PERF_VALUES)) rtv w'"
    unfolding get_random_timestamp_value_def
  proof (rule for_loop_invariant [where I = ?I])
    show "?I 0 [] w" by simp
  next
    fix k and acc :: series and w
    assume "?I k acc w"
    moreover from timestamp_step [of acc w] obtain t v w' where
      s: "py_bind now_timestamp (\<lambda>ts.
       let timestamp = py_trunc (ts * 1000) in
       py_bind (uniform 1 100) (\<lambda>v.
       py_return (AList.update timestamp v acc))) w = (Inr (AList.update t v acc), w')"
      "1 \<le> v" "v \<le> 100" by blast
    ultimately have "?I (Suc k) (AList.update t v acc) w'"
      using length_update_le [of t v acc]
        update_preserves [of "\<lambda>(t, v). 1 \<le> v \<and> v \<le> 100" t v acc]
      by (simp add: distinct_update)
    with s(1) show "\<exists>acc' w'. py_bind now_timestamp (\<lambda>ts.
       let timestamp = py_trunc (ts * 1000) in
       py_bind (uniform 1 100) (\<lambda>v.
       py_return (AList.update timestamp v acc))) w = (Inr acc', w') \<and> ?I (Suc k) acc' w'"
      by blast
  qed
  then obtain rtv w' where
    "get_random_timestamp_value w = (Inr rtv, w')" "distinct (map fst rtv)" "length rtv \<le> 3"
    "rtv \<noteq> []" "\<forall>(t, v)\<in>set rtv. 1 \<le> v \<and> v \<le> 100"
    unfolding len by auto
  moreover from this have "1 \<le> length rtv" by (cases rtv) simp_all
  ultimately show ?thesis
    by (auto simp: series_in_bounds_def MIN_PERF_VALUES_def MAX_PERF_VALUES_def)
qed

lemma get_random_performance_ok:
  "\<exists>perf w'. get_random_performance metrics w = (Inr perf, w') \<and>
      fst ` set perf = set metrics \<and> (\<forall>(key, rtv)\<in>set perf. series_in_bounds rtv)"
proof -
  let ?I = "\<lambda>k (perf :: (string \<times> series) list) (w :: world).
      fst ` set perf = set (take k metrics) \<and> (\<forall>(key, rtv)\<in>set perf. series_in_bounds rtv)"
  have "\<exists>perf w'. get_random_performance metrics w = (Inr perf, w') \<and> ?I (length metrics) perf w'"
    unfolding get_random_performance_def
  proof (rule for_loop_invariant [where I = ?I])
    show "?I 0 [] w" by simp
  next
    fix k and acc :: "(string \<times> series) list" and w
    assume k: "k < length metrics" and i: "?I k acc w"
    from get_random_timestamp_value_ok [of w] obtain rtv w' where
      r: "get_random_timestamp_value w = (Inr rtv, w')" "series_in_bounds rtv" by blast
    have "?I (Suc k) (AList.update (metrics ! k) rtv acc) w'"
      using i r(2) k
        update_preserves [of "\<lambda>(key, rtv). series_in_bounds rtv" "metrics ! k" rtv acc]
      by (simp add: dom_update take_Suc_conv_app_nth)
    with r(1) show "\<exists>acc' w'. py_bind get_random_timestamp_value (\<lambda>rtv.
       py_return (AList.update (metrics ! k) rtv acc)) w = (Inr acc', w') \<and> ?I (Suc k) acc' w'"
      by (simp add: py_bind_def py_return_def)
  qed
  then show ?thesis by simp
qed

text \<open>
  Claim C7. The time-series sampler always returns; each series it returns has one entry
  per timestamp, at least \<open>MIN_PERF_VALUES = 1\<close> and at most \<open>MAX_PERF_VALUES = 4\<close> entries, and
  every value between 1 and 100. The same holds of every series in the dict that
  \<open>_get_random_performance\<close> builds.
\<close>

theorem time_series_points:
  "(\<exists>rtv w'. get_random_timestamp_value w = (Inr rtv, w') \<and>
      distinct (map fst rtv) \<and>
      MIN_PERF_VALUES \<le> int (length rtv) \<and> int (length rtv) \<le> MAX_PERF_VALUES \<and>
      (\<forall>(t, v)\<in>set rtv. 1 \<le> v \<and> v \<le> 100)) \<and>
   (\<exists>perf w'. get_random_performance metrics w = (Inr perf, w') \<and>
      (\<forall>(key, rtv)\<in>set perf. series_in_bounds rtv))"
proof -
  from get_random_timestamp_value_ok [of w] have
    "\<exists>rtv w'. get_random_timestamp_value w = (Inr rtv, w') \<and>
      distinct (map fst rtv) \<and>
      MIN_PERF_VALUES \<le> int (length rtv) \<and> int (length rtv) \<le> MAX_PERF_VALUES \<and>
      (\<forall>(t, v)\<in>set rtv. 1 \<le> v \<and> v \<le> 100)"
    unfolding series_in_bounds_def by blast
  moreover from get_random_performance_ok [of metrics w] have
    "\<exists>perf w'. get_random_performance metrics w = (Inr perf, w') \<and>
      (\<forall>(key, rtv)\<in>set perf. series_in_bounds rtv)"
    by blast
  ultimately show ?thesis by (rule conjI)
qed

theorem time_series_points_witness:
  "\<exists>rtv w'. get_random_timestamp_value world0 = (Inr rtv, w') \<and>
      1 \<le> length rtv \<and> length rtv \<le> 4"
  using time_series_points [of world0 "[]"]
  by (auto simp: MIN_PERF_VALUES_def MAX_PERF_VALUES_def)

lemma metrics_inner_loop:
  assumes "set ms \<subseteq> fst ` set perf"
  shows "for_loop ms (\<lambda>key array_metrics.
         py_bind (dict_get perf key) (\<lambda>vals.
         py_return (array_metrics @ [\<lparr>name = key, labels = L, values = vals\<rparr>]))) am w =
       (Inr (am @ map (\<lambda>key. \<lparr>name = key, labels = L, values = the (map_of perf key)\<rparr>) ms), w)"
  using assms
proof (induction ms arbitrary: am)
  case Nil
  show ?case by simp
next
  case (Cons key ms)
  from Cons.prems have "map_of perf key \<noteq> None"
    by (simp add: map_of_eq_None_iff)
  then obtain v where v: "map_of perf key = Some v" by blast
  from Cons.prems have "set ms \<subseteq> fst ` set perf" by simp
  from Cons.IH [OF this] show ?case
    by (simp add: py_bind_def dict_get_def v py_return_def)
qed

lemma metrics_outer_loop:
  assumes "\<And>am w. inner am w = (Inr (am @ batch), w)"
  shows "for_loop xs (\<lambda>_. inner) acc w = (Inr (acc @ concat (replicate (length xs) batch)), w)"
  by (induction xs arbitrary: acc) (simp_all add: assms)

lemma collect_array_metrics_body_eq:
  assumes "get_random_performance ms (skip 1 w) = (Inr perf, w')"
    and "set ms \<subseteq> fst ` set perf"
  shows "collect_array_metrics_body ms c sid iv h w =
     (Inr (concat (replicate (Suc (rand w 0 mod 10))
             (map (\<lambda>key. \<lparr>name = key, labels = array_labels sid,
                           values = the (map_of perf key)\<rparr>) ms))), w')"
proof -
  have r: "randint MIN_STORAGE MAX_STORAGE w = (Inr (1 + int (rand w 0 mod 10)), skip 1 w)"
    by (simp add: randint_ok MIN_STORAGE_def MAX_STORAGE_def)
  have len: "length (py_range 0 (1 + int (rand w 0 mod 10))) = Suc (rand w 0 mod 10)"
    by (simp add: py_range_length)
  have s1: "\<And>f. py_bind (randint MIN_STORAGE MAX_STORAGE) f w =
                f (1 + int (rand w 0 mod 10)) (skip 1 w)"
    by (simp add: py_bind_def r)
  have s2: "\<And>f. py_bind (get_random_performance ms) f (skip 1 w) = f perf w'"
    using assms(1) by (simp add: py_bind_def)
  show ?thesis
    unfolding collect_array_metrics_body_def
    by (simp only: s1 Let_def s2 metrics_outer_loop [OF metrics_inner_loop [OF assms(2)]] len
        array_labels_def append_Nil)
qed

text \<open>
  Claim C6. \<open>collect_array_metrics\<close> always returns. With \<open>n\<close> the batch count it draws
  (between 1 and 10) and \<open>perf\<close> the dict of series it builds once, the records are \<open>n\<close>
  copies of the list that has one record per metric name, in order: \<open>n\<close> times the number
  of names in all. Every record's name is one of the metric names, its labels are the
  storage id and the resource type \<open>array\<close>, and its values are the series of \<open>perf\<close> under
  its name, the same in every batch.
\<close>

theorem collect_array_metrics_records:
  "\<exists>n perf w1 w' records.
     randint MIN_STORAGE MAX_STORAGE (waited (1 / 10) (1 / 2) w) = (Inr n, w1) \<and>
     1 \<le> n \<and> n \<le> 10 \<and>
     get_random_performance metrics w1 = (Inr perf, w') \<and>
     collect_array_metrics metrics ctx storage_id interval is_history w = (Inr records, w') \<and>
     records = concat (replicate (nat n)
                 (map (\<lambda>key. \<lparr>name = key,
                               labels = [(''storage_id'', PyStr storage_id),
                                         (''resource_type'', PyStr ''array'')],
                               values = the (map_of perf key)\<rparr>) metrics)) \<and>
     length records = nat n * length metrics \<and>
     (\<forall>m\<in>set records.
        name m \<in> set metrics \<and>
        labels m = [(''storage_id'', PyStr storage_id), (''resource_type'', PyStr ''array'')] \<and>
        map_of perf (name m) = Some (values m))"
proof -
  let ?w0 = "waited (1 / 10) (1 / 2) w"
  let ?n = "1 + int (rand ?w0 0 mod 10)"
  have r: "randint MIN_STORAGE MAX_STORAGE ?w0 = (Inr ?n, skip 1 ?w0)"
    by (simp add: randint_ok MIN_STORAGE_def MAX_STORAGE_def)
  from get_random_performance_ok [of metrics "skip 1 ?w0"] obtain perf w' where
    p: "get_random_performance metrics (skip 1 ?w0) = (Inr perf, w')"
      "fst ` set perf = set metrics" by blast
  let ?mk = "\<lambda>key. \<lparr>name = key, labels = [(''storage_id'', PyStr storage_id), (''resource_type'', PyStr ''array'')],
                     values = the (map_of perf key)\<rparr>"
  let ?records = "concat (replicate (nat ?n) (map ?mk metrics))"
  have nn: "nat ?n = Suc (rand ?w0 0 mod 10)" by simp
  have e: "collect_array_metrics metrics ctx storage_id interval is_history w = (Inr ?records, w')"
    unfolding wrapped_eq nn
    by (rule collect_array_metrics_body_eq [unfolded array_labels_def, OF p(1)]) (simp add: p(2))
  have b: "1 \<le> ?n" "?n \<le> 10" by simp_all
  have len: "length ?records = nat ?n * length metrics"
    by (simp add: length_concat sum_list_replicate del: One_nat_def)
  have each: "\<forall>m\<in>set ?records. name m \<in> set metrics \<and> labels m = [(''storage_id'', PyStr storage_id), (''resource_type'', PyStr ''array'')] \<and>
        map_of perf (name m) = Some (values m)"
  proof
    fix m assume "m \<in> set ?records"
    then obtain key where k: "key \<in> set metrics" "m = ?mk key"
      by (auto split: if_splits)
    from k(1) p(2) have "map_of perf key \<noteq> None" by (simp add: map_of_eq_None_iff)
    with k show "name m \<in> set metrics \<and> labels m = [(''storage_id'', PyStr storage_id), (''resource_type'', PyStr ''array'')] \<and>
        map_of perf (name m) = Some (values m)" by auto
  qed
  show ?thesis
    using r b p(1) e len each
    by (intro exI [of _ ?n] exI [of _ perf] exI [of _ "skip 1 ?w0"] exI [of _ w']
        exI [of _ ?records]) (simp only: simp_thms)
qed

theorem collect_array_metrics_records_witness:
  "\<exists>records w'. collect_array_metrics [''iops''] () ''s'' (5::nat) True world0 = (Inr records, w') \<and>
     1 \<le> length records \<and> length records \<le> 10"
proof -
  from collect_array_metrics_records [of world0 "[''iops'']" "()" "''s''" "5::nat" True]
  obtain n records w' where
    "1 \<le> n" "n \<le> 10"
    "collect_array_metrics [''iops''] () ''s'' (5::nat) True world0 = (Inr records, w')"
    "length records = nat n * length [''iops'']"
    by blast
  moreover from this have "1 \<le> nat n" "nat n \<le> 10" by linarith+
  ultimately show ?thesis by (intro exI [of _ records] exI [of _ w']) simp
qed

text \<open>
  Claim C9. From the same world, with the same \<open>ctx\<close> and \<open>storage_id\<close>, two calls of
  \<open>collect_array_metrics\<close> return the same records and leave the same world, whatever their
  \<open>interval\<close> and \<open>is_history\<close>.
\<close>

theorem collect_array_metrics_ignores_interval_and_history:
  "collect_array_metrics metrics ctx storage_id interval is_history w =
   collect_array_metrics metrics ctx storage_id interval' is_history' w"
  by (simp add: collect_array_metrics_def collect_array_metrics_body_def)

section \<open>The quotient of two integers\<close>

lemma round_half_even_le: "q \<le> of_int m \<Longrightarrow> round_half_even q \<le> m"
proof -
  assume q: "q \<le> of_int m"
  show ?thesis
  proof (cases "q = of_int m")
    case True
    then show ?thesis by (simp add: round_half_even_def)
  next
    case False
    with q have "q < of_int m" by simp
    then have "\<lfloor>q\<rfloor> < m" by (simp add: floor_less_iff)
    then show ?thesis by (simp add: round_half_even_def Let_def)
  qed
qed

lemma round_half_even_ge: "of_int m \<le> q \<Longrightarrow> m \<le> round_half_even q"
proof -
  assume "of_int m \<le> q"
  then have "m \<le> \<lfloor>q\<rfloor>" by (simp add: le_floor_iff)
  then show ?thesis by (simp add: round_half_even_def Let_def)
qed

lemma round_half_even_gt: "of_int m + 1 / 2 < q \<Longrightarrow> m < round_half_even q"
proof -
  assume q: "of_int m + 1 / 2 < q"
  then have "of_int m \<le> q" by simp
  then have f: "m \<le> \<lfloor>q\<rfloor>" by (simp add: le_floor_iff)
  show ?thesis
  proof (cases "m = \<lfloor>q\<rfloor>")
    case True
    with q have "1 / 2 < q - of_int \<lfloor>q\<rfloor>" by simp
    then show ?thesis using True by (simp add: round_half_even_def Let_def)
  next
    case False
    with f have "m < \<lfloor>q\<rfloor>" by simp
    then show ?thesis by (simp add: round_half_even_def Let_def)
  qed
qed

lemma round_half_even_zero: "0 \<le> q \<Longrightarrow> q < 1 / 2 \<Longrightarrow> round_half_even q = 0"
proof -
  assume q: "0 \<le> q" "q < 1 / 2"
  then have "\<lfloor>q\<rfloor> = 0" by (intro floor_unique) simp_all
  with q show ?thesis by (simp add: round_half_even_def)
qed

lemma bitlen_bounds_rat:
  assumes "0 < a"
  shows "power_int 2 (bitlen a - 1) \<le> (of_int a :: rat)" "(of_int a :: rat) < power_int 2 (bitlen a)"
proof -
  from bitlen_bounds [OF assms] have b: "2 ^ nat (bitlen a - 1) \<le> a" "a < 2 ^ nat (bitlen a)"
    by simp_all
  have l: "1 \<le> bitlen a" using assms bitlen_eq_zero_iff [of a] bitlen_nonneg [of a] by linarith
  from b(1) have "(of_int (2 ^ nat (bitlen a - 1)) :: rat) \<le> of_int a" by (simp only: of_int_le_iff)
  then show "power_int 2 (bitlen a - 1) \<le> (of_int a :: rat)"
    using l by (simp add: power_int_def)
  from b(2) have "(of_int a :: rat) < of_int (2 ^ nat (bitlen a))" by (simp only: of_int_less_iff)
  then show "(of_int a :: rat) < power_int 2 (bitlen a)"
    using l by (simp add: power_int_def)
qed

lemma binade_bounds:
  assumes "0 < a" "0 < b"
  shows "power_int 2 (binade a b) \<le> (of_int a / of_int b :: rat)"
    and "(of_int a / of_int b :: rat) < power_int 2 (binade a b + 1)"
proof -
  define d where "d = bitlen a - bitlen b"
  define x :: rat where "x = of_int a / of_int b"
  have bp: "(0::rat) < of_int b" using assms by simp
  have lo: "power_int 2 (d - 1) < x"
  proof -
    have "power_int 2 (d - 1) * (of_int b :: rat) < power_int 2 (d - 1) * power_int 2 (bitlen b)"
      using bitlen_bounds_rat(2) [OF assms(2)] by (intro mult_strict_left_mono) simp_all
    also have "\<dots> = power_int 2 (bitlen a - 1)"
      by (simp add: power_int_add [symmetric] d_def)
    also have "\<dots> \<le> of_int a" by (rule bitlen_bounds_rat(1) [OF assms(1)])
    finally show ?thesis using bp by (simp add: x_def pos_less_divide_eq)
  qed
  have hi: "x < power_int 2 (d + 1)"
  proof -
    have "(of_int a :: rat) < power_int 2 (bitlen a)" by (rule bitlen_bounds_rat(2) [OF assms(1)])
    also have "\<dots> = power_int 2 (d + 1) * power_int 2 (bitlen b - 1)"
      by (simp add: power_int_add [symmetric] d_def)
    also have "\<dots> \<le> power_int 2 (d + 1) * of_int b"
      using bitlen_bounds_rat(1) [OF assms(2)] by (intro mult_left_mono) simp_all
    finally show ?thesis using bp by (simp add: x_def pos_divide_less_eq)
  qed
  show "power_int 2 (binade a b) \<le> (of_int a / of_int b :: rat)"
    using lo by (auto simp: binade_def Let_def d_def x_def)
  show "(of_int a / of_int b :: rat) < power_int 2 (binade a b + 1)"
    using hi by (auto simp: binade_def Let_def d_def x_def not_le)
qed

lemma power_int_2_less_imp:
  assumes "power_int (2::rat) m < power_int 2 n"
  shows "m < n"
proof (rule ccontr)
  assume "\<not> m < n"
  then have "n \<le> m" by simp
  then have "power_int (2::rat) n \<le> power_int 2 m" by (intro power_int_increasing) simp_all
  with assms show False by simp
qed

lemma power_int_2_half: "power_int (2::rat) (n - 1) = power_int 2 n / 2"
  by (simp add: power_int_diff)

lemma nearest_double_underflow:
  assumes "0 < a" "0 < b" "of_int a / of_int b < power_int (2::rat) (- 1075)"
  shows "nearest_double a b = 0"
proof -
  define x :: rat where "x = of_int a / of_int b"
  have x0: "0 < x" using assms(1,2) by (simp add: x_def)
  have "power_int 2 (binade a b) \<le> x" unfolding x_def by (rule binade_bounds(1) [OF assms(1,2)])
  also have "x < power_int 2 (- 1075)" using assms(3) by (simp only: x_def)
  finally have "binade a b < - 1075" by (rule power_int_2_less_imp)
  then have m: "max (binade a b) (- 1022) - 52 = - 1074" by simp
  have "power_int (2::rat) (- 1075) = power_int 2 (- 1074) / 2"
    using power_int_2_half [of "- 1074"] by simp
  with assms(3) have "x < power_int 2 (- 1074) / 2" by (simp only: x_def)
  then have "x / power_int 2 (- 1074) < 1 / 2"
    by (simp add: pos_divide_less_eq)
  moreover have "0 \<le> x / power_int 2 (- 1074)" using x0 by simp
  ultimately have "round_half_even (x / power_int 2 (- 1074)) = 0"
    by (intro round_half_even_zero)
  then show ?thesis
    unfolding nearest_double_def Let_def m x_def [symmetric] by simp
qed

lemma nearest_double_ceiling:
  assumes "0 < a" "a < 2 ^ 53" "0 < b" "b < 2 ^ 1075"
  shows "\<lceil>nearest_double a b\<rceil> = \<lceil>(of_int a :: rat) / of_int b\<rceil>"
    and "nearest_double a b < 2 ^ 1024"
proof -
  define x :: rat where "x = of_int a / of_int b"
  define e where "e = binade a b"
  define E where "E = max e (- 1022) - 52"
  define u :: rat where "u = power_int 2 E"
  define c where "c = \<lceil>x\<rceil>"
  define r where "r = of_int (round_half_even (x / u)) * u"
  have r: "nearest_double a b = r"
    by (simp add: nearest_double_def Let_def r_def u_def E_def e_def x_def)
  have bp: "(0::rat) < of_int b" using assms(3) by simp
  have u0: "0 < u" by (simp add: u_def)
  have xa: "x \<le> of_int a"
  proof -
    have "(1::rat) \<le> of_int b" using assms(3) by simp
    then have "of_int a / of_int b \<le> (of_int a :: rat) / 1"
      using assms(1) by (intro divide_left_mono) simp_all
    then show ?thesis by (simp add: x_def)
  qed
  have a53: "(of_int a :: rat) < power_int 2 53"
  proof -
    from assms(2) have "(of_int a :: rat) < of_int (2 ^ 53)" by (simp only: of_int_less_iff)
    then show ?thesis by simp
  qed
  have "power_int 2 e \<le> x" unfolding x_def e_def by (rule binade_bounds(1) [OF assms(1,3)])
  also have "x < power_int 2 53" using xa a53 by simp
  finally have e53: "e < 53" by (rule power_int_2_less_imp)
  then have E0: "E \<le> 0" by (simp add: E_def)
  define N :: int where "N = 2 ^ nat (- E)"
  have uN: "u * of_int N = 1"
  proof -
    have "of_int N = power_int (2::rat) (- E)" using E0 by (simp add: N_def power_int_def)
    then show ?thesis by (simp add: u_def power_int_add [symmetric])
  qed
  then have grid: "\<And>m. (of_int m :: rat) / u = of_int (m * N)"
    using u0 by (simp add: field_simps)
  have unscale: "\<And>m. of_int (m * N) * u = (of_int m :: rat)"
    using uN by (simp add: mult.assoc mult.commute)
  have xc: "x \<le> of_int c" unfolding c_def by (rule le_of_int_ceiling)
  have cx: "of_int (c - 1) < x" unfolding c_def by linarith
  have upper: "r \<le> of_int c"
  proof -
    have "x / u \<le> of_int c / u" using xc u0 by (simp add: divide_right_mono)
    then have "x / u \<le> of_int (c * N)" by (simp only: grid)
    then have "round_half_even (x / u) \<le> c * N" by (rule round_half_even_le)
    then have "(of_int (round_half_even (x / u)) :: rat) \<le> of_int (c * N)"
      by (simp only: of_int_le_iff)
    then have "r \<le> of_int (c * N) * u" unfolding r_def using u0 by (intro mult_right_mono) simp_all
    then show ?thesis by (simp only: unscale)
  qed
  have gap: "1 / of_int b \<le> x - of_int (c - 1)"
  proof -
    from cx have "of_int (c - 1) * of_int b < (of_int a :: rat)"
      using bp by (simp add: x_def pos_less_divide_eq)
    then have "(of_int ((c - 1) * b) :: rat) < of_int a" by simp
    then have "(c - 1) * b < a" by (simp only: of_int_less_iff)
    then have "(c - 1) * b + 1 \<le> a" by simp
    then have "(of_int ((c - 1) * b + 1) :: rat) \<le> of_int a" by (simp only: of_int_le_iff)
    then have "of_int (c - 1) * of_int b + 1 \<le> (of_int a :: rat)" by simp
    then have "(of_int (c - 1) * of_int b + 1) / of_int b \<le> (of_int a :: rat) / of_int b"
      using bp by (intro divide_right_mono) simp_all
    then have "of_int (c - 1) + 1 / of_int b \<le> x"
      using bp by (simp add: x_def add_divide_distrib)
    then show ?thesis by simp
  qed
  have half: "u / 2 < 1 / of_int b"
  proof (cases "- 1022 \<le> e")
    case True
    then have "E = e - 52" by (simp add: E_def)
    then have "u / 2 = power_int 2 (e - 53)"
      using power_int_2_half [of "e - 52"] by (simp add: u_def)
    also have "\<dots> = power_int 2 e / power_int 2 53" by (simp add: power_int_diff)
    also have "\<dots> \<le> x / power_int 2 53"
      using \<open>power_int 2 e \<le> x\<close> by (intro divide_right_mono) simp_all
    also have "\<dots> = (of_int a / power_int 2 53) / of_int b" by (simp add: x_def)
    also have "\<dots> < 1 / of_int b"
      using a53 bp by (intro divide_strict_right_mono) simp_all
    finally show ?thesis .
  next
    case False
    then have "E = - 1074" by (simp add: E_def)
    then have "u / 2 = power_int 2 (- 1075)"
      using power_int_2_half [of "- 1074"] by (simp add: u_def)
    also have "\<dots> = 1 / power_int 2 1075"
      by (simp add: power_int_minus inverse_eq_divide)
    also have "\<dots> < 1 / of_int b"
    proof -
      from assms(4) have "(of_int b :: rat) < of_int (2 ^ 1075)" by (simp only: of_int_less_iff)
      then have "(of_int b :: rat) < power_int 2 1075" by simp
      then show ?thesis using bp by (intro divide_strict_left_mono) simp_all
    qed
    finally show ?thesis .
  qed
  have lower: "of_int (c - 1) < r"
  proof -
    from gap half have "of_int (c - 1) + u / 2 < x" by simp
    then have "(of_int (c - 1) + u / 2) / u < x / u"
      using u0 by (intro divide_strict_right_mono) simp_all
    then have "of_int (c - 1) / u + 1 / 2 < x / u"
      using u0 by (simp add: add_divide_distrib)
    then have "of_int ((c - 1) * N) + 1 / 2 < x / u" by (simp only: grid)
    then have "(c - 1) * N < round_half_even (x / u)" by (rule round_half_even_gt)
    then have "(of_int ((c - 1) * N) :: rat) < of_int (round_half_even (x / u))"
      by (simp only: of_int_less_iff)
    then have "of_int ((c - 1) * N) * u < r"
      unfolding r_def using u0 by (intro mult_strict_right_mono) simp_all
    then show ?thesis by (simp only: unscale)
  qed
  have "\<lceil>r\<rceil> = c"
    using lower upper by (intro ceiling_unique) simp_all
  then show "\<lceil>nearest_double a b\<rceil> = \<lceil>(of_int a :: rat) / of_int b\<rceil>"
    by (simp add: r c_def x_def)
  have "c \<le> a" unfolding c_def using xa by (simp add: ceiling_le_iff)
  then have "(of_int c :: rat) \<le> of_int a" by (simp only: of_int_le_iff)
  with upper a53 have "r < power_int 2 53" by simp
  also have "\<dots> \<le> power_int 2 1024" by (intro power_int_increasing) simp_all
  finally show "nearest_double a b < 2 ^ 1024" by (simp add: r)
qed

lemma py_truediv_ceiling:
  assumes "0 \<le> n" "n < 2 ^ 53" "1 \<le> p" "p < 2 ^ 1075"
  shows "\<exists>q. py_truediv n p = Inr q \<and> \<lceil>q\<rceil> = \<lceil>(of_int n :: rat) / of_int p\<rceil>"
proof (cases "n = 0")
  case True
  then show ?thesis using assms(3) by (simp add: py_truediv_def)
next
  case False
  with assms(1) have n: "0 < n" by simp
  have p: "0 < p" using assms(3) by simp
  from nearest_double_ceiling [OF n assms(2) p assms(4)] have
    "\<lceil>nearest_double n p\<rceil> = \<lceil>(of_int n :: rat) / of_int p\<rceil>" "\<not> 2 ^ 1024 \<le> nearest_double n p"
    by simp_all
  then show ?thesis using n p by (simp add: py_truediv_def Let_def)
qed

lemma ceil_div_exact:
  assumes "0 \<le> n" "n < 2 ^ 53" "1 \<le> p" "p < 2 ^ 1075"
  shows "ceil_div n p w = (Inr \<lceil>(of_int n :: rat) / of_int p\<rceil>, w)"
proof -
  from py_truediv_ceiling [OF assms] obtain q where
    "py_truediv n p = Inr q" "\<lceil>q\<rceil> = \<lceil>(of_int n :: rat) / of_int p\<rceil>" by blast
  then show ?thesis
    by (simp add: ceil_div_def py_bind_def lift_result_def py_return_def)
qed

lemma py_truediv_underflow:
  assumes "0 < a" "0 < b" "of_int a / of_int b < power_int (2::rat) (- 1075)"
  shows "py_truediv a b = Inr 0"
  using assms by (simp add: py_truediv_def Let_def nearest_double_underflow)

section \<open>Volume listing\<close>

lemma get_volume_range_body_eq:
  "get_volume_range_body sid s e w =
     (Inr (map (\<lambda>k. volume_entry sid (s + int k) (capacity_of (skip (2 * k) w))) [0..<nat (e - s)]),
      skip (2 * nat (e - s)) w)"
proof -
  let ?body = "\<lambda>i volume_list.
       py_bind get_random_capacity (\<lambda>(total, used, free).
       py_return (volume_list @
         [[(''name'', PyStr (''fake_vol_'' @ py_str i)),
           (''storage_id'', PyStr sid),
           (''description'', PyStr ''Fake Volume''),
           (''status'', PyStr ''normal''),
           (''native_volume_id'', PyStr (''fake_original_id_'' @ py_str i)),
           (''wwn'', PyStr (''fake_wwn_'' @ py_str i)),
           (''total_capacity'', PyInt total),
           (''used_capacity'', PyInt used),
           (''free_capacity'', PyInt free)]]))"
  have b: "\<And>i acc v. ?body i acc v = (Inr (acc @ [volume_entry sid i (capacity_of v)]), skip 2 v)"
    by (simp add: py_bind_def get_random_capacity_eq py_return_def volume_entry_def split: prod.splits)
  have "get_volume_range_body sid s e w = for_loop (py_range s e) ?body [] w"
    by (simp add: get_volume_range_body_def)
  also have "\<dots> = (Inr ([] @ map (\<lambda>k. volume_entry sid (py_range s e ! k) (capacity_of ((skip 2 ^^ k) w)))
                        [0..<length (py_range s e)]), (skip 2 ^^ length (py_range s e)) w)"
    by (rule for_loop_emit [OF b])
  also have "\<dots> = (Inr (map (\<lambda>k. volume_entry sid (s + int k) (capacity_of (skip (2 * k) w)))
                        [0..<nat (e - s)]), skip (2 * nat (e - s)) w)"
    by (simp add: funpow_skip py_range_length py_range_nth mult.commute)
  finally show ?thesis .
qed

lemma volume_entry_name:
  "map_of (volume_entry sid i c) ''name'' = Some (PyStr (''fake_vol_'' @ py_str i))"
  by (cases c) (simp add: volume_entry_def)

lemma get_volume_range_ok:
  "\<exists>vs w'. get_volume_range sid s e w = (Inr vs, w') \<and> length vs = nat (e - s) \<and>
     length (slept w') = Suc (length (slept w)) \<and> gl w' = gl w \<and>
     (\<forall>k<length vs. map_of (vs ! k) ''name'' = Some (PyStr (''fake_vol_'' @ py_str (s + int k))))"
proof -
  let ?w0 = "waited (1 / 10) (1 / 2) w"
  obtain vs w' where e: "get_volume_range_body sid s e ?w0 = (Inr vs, w')"
    and vs: "vs = map (\<lambda>k. volume_entry sid (s + int k) (capacity_of (skip (2 * k) ?w0))) [0..<nat (e - s)]"
    and w': "w' = skip (2 * nat (e - s)) ?w0"
    using get_volume_range_body_eq [of sid s e ?w0] by blast
  have "\<forall>k<length vs. map_of (vs ! k) ''name'' = Some (PyStr (''fake_vol_'' @ py_str (s + int k)))"
    by (simp add: vs volume_entry_name)
  with e vs w' show ?thesis
    by (simp add: wrapped_eq skip_fields waited_fields)
qed

lemma volume_loop_pages:
  "for_loop idxs (\<lambda>idx volume_list.
       py_bind (get_volume_range sid (fst (b idx)) (snd (b idx))) (\<lambda>vs.
       py_return (volume_list @ vs))) acc w =
   (Inr (acc @ concat (fst (volume_pages sid (map b idxs) w))),
    snd (volume_pages sid (map b idxs) w))"
proof (induction idxs arbitrary: acc w)
  case Nil
  show ?case by simp
next
  case (Cons i idxs)
  from get_volume_range_ok [of sid "fst (b i)" "snd (b i)" w] obtain vs w' where
    g: "get_volume_range sid (fst (b i)) (snd (b i)) w = (Inr vs, w')" by blast
  have v: "volume_pages sid (map b (i # idxs)) w =
          (vs # fst (volume_pages sid (map b idxs) w'), snd (volume_pages sid (map b idxs) w'))"
    using g by (cases "b i") (simp add: split: prod.splits)
  have step: "py_bind (get_volume_range sid (fst (b i)) (snd (b i))) (\<lambda>vs.
       py_return (acc @ vs)) w = (Inr (acc @ vs), w')"
    using g by (simp add: py_bind_def py_return_def)
  show ?case
    unfolding v by (simp add: step Cons.IH)
qed

lemma volume_pages_props:
  "length (fst (volume_pages sid spans w)) = length spans \<and>
   (\<forall>i<length spans.
      length (fst (volume_pages sid spans w) ! i) = nat (snd (spans ! i) - fst (spans ! i))) \<and>
   length (slept (snd (volume_pages sid spans w))) = length (slept w) + length spans \<and>
   gl (snd (volume_pages sid spans w)) = gl w"
proof (induction spans arbitrary: w)
  case Nil
  show ?case by simp
next
  case (Cons se spans)
  obtain s e where se: "se = (s, e)" by (cases se)
  from get_volume_range_ok [of sid s e w] obtain vs w' where
    g: "get_volume_range sid s e w = (Inr vs, w')" "length vs = nat (e - s)"
      "length (slept w') = Suc (length (slept w))" "gl w' = gl w" by blast
  have v: "volume_pages sid (se # spans) w =
          (vs # fst (volume_pages sid spans w'), snd (volume_pages sid spans w'))"
    using g(1) se by (simp split: prod.splits)
  show ?case
    unfolding v using Cons.IH [of w'] g(2-4) se
    by (auto simp: nth_Cons split: nat.splits)
qed

lemma ceiling_pages:
  assumes "0 \<le> n" "1 \<le> p"
  defines "k \<equiv> \<lceil>(of_int n :: rat) / of_int p\<rceil>"
  shows "0 \<le> k" "n \<le> k * p" "(k - 1) * p < n"
proof -
  have p: "(0::rat) < of_int p" using assms(2) by simp
  have "(of_int n :: rat) / of_int p \<le> of_int k" unfolding k_def by (rule le_of_int_ceiling)
  then have "(of_int n :: rat) \<le> of_int k * of_int p" using p by (simp add: pos_divide_le_eq)
  then have "(of_int n :: rat) \<le> of_int (k * p)" by simp
  then show nk: "n \<le> k * p" by (simp only: of_int_le_iff)
  have "(0::rat) \<le> of_int n / of_int p" using assms by simp
  then show k0: "0 \<le> k" unfolding k_def by (simp only: zero_le_ceiling)
  have "of_int k - 1 < (of_int n :: rat) / of_int p" unfolding k_def by linarith
  then have "(of_int k - 1) * of_int p < (of_int n :: rat)" using p by (simp add: pos_less_divide_eq)
  then have "(of_int ((k - 1) * p) :: rat) < of_int n" by simp
  then show "(k - 1) * p < n" by (simp only: of_int_less_iff)
qed

lemma py_bind_Inr: "m w = (Inr x, w') \<Longrightarrow> py_bind m f w = f x w'"
  by (simp add: py_bind_def)

lemma py_range_set: "set (py_range a b) = {a..b - 1}"
  by (simp add: py_range_def)

lemma span_end:
  assumes "(1::int) \<le> p" "n \<le> k * p" "(k - 1) * p < n" "0 \<le> idx" "idx \<le> k - 1"
  shows "(if idx = k - 1 then n else (idx + 1) * p) = min ((idx + 1) * p) n"
proof (cases "idx = k - 1")
  case True
  then have "idx + 1 = k" by simp
  with assms(2) True show ?thesis by simp
next
  case False
  with assms(5) have "idx + 1 \<le> k - 1" by simp
  then have "(idx + 1) * p \<le> (k - 1) * p" using assms(1) by (intro mult_right_mono) simp_all
  with assms(3) False show ?thesis by simp
qed

lemma span_sum:
  assumes "1 \<le> p" "(k - 1) * p < n" "m \<le> nat k"
  shows "(\<Sum>i<m. nat (min ((int i + 1) * p) n - int i * p)) = nat (min (int m * p) n)"
  using assms(3)
proof (induction m)
  case 0
  from assms(1,2) show ?case by simp
next
  case (Suc m)
  then have m: "int m \<le> k - 1" by simp
  then have "int m * p \<le> (k - 1) * p" using assms(1) by (intro mult_right_mono) simp_all
  define a where "a = int m * p"
  from \<open>int m * p \<le> (k - 1) * p\<close> assms(2) have lt: "a < n" by (simp add: a_def)
  have nn: "0 \<le> a" using assms(1) by (simp add: a_def)
  have step: "(int m + 1) * p = a + p" by (simp add: distrib_right a_def)
  from Suc have "(\<Sum>i<m. nat (min ((int i + 1) * p) n - int i * p)) = nat (min a n)"
    by (simp add: a_def)
  then have "(\<Sum>i<Suc m. nat (min ((int i + 1) * p) n - int i * p)) =
        nat (min a n) + nat (min (a + p) n - a)"
    by (simp add: step a_def [symmetric])
  also have "\<dots> = nat (min (a + p) n)"
    using lt nn assms(1) by arith
  finally have "(\<Sum>i<Suc m. nat (min ((int i + 1) * p) n - int i * p)) = nat (min (a + p) n)" .
  moreover have "int (Suc m) * p = a + p" by (simp add: a_def distrib_right)
  ultimately show ?case by (simp only:)
qed

lemma py_range_append:
  assumes "a \<le> b" "b \<le> c"
  shows "py_range a b @ py_range b c = py_range a c"
proof (cases "a = b")
  case True
  then show ?thesis by (simp add: py_range_def)
next
  case False
  with assms have "a \<le> b - 1" "b - 1 \<le> c - 1" by simp_all
  from upto_split2 [OF this] show ?thesis by (simp add: py_range_def)
qed

lemma page_names:
  assumes "get_volume_range sid s e w = (Inr vs, w')"
  shows "map (\<lambda>d. map_of d ''name'') vs = map volume_name (py_range s e)"
proof -
  from get_volume_range_ok [of sid s e w] assms have
    l: "length vs = nat (e - s)" and
    n: "\<forall>k<length vs. map_of (vs ! k) ''name'' = Some (PyStr (''fake_vol_'' @ py_str (s + int k)))"
    by auto
  show ?thesis
    by (rule nth_equalityI) (simp_all add: l n py_range_length py_range_nth volume_name_def)
qed

lemma volume_pages_names:
  "map (\<lambda>d. map_of d ''name'') (concat (fst (volume_pages sid spans w))) =
   map volume_name (concat (map (\<lambda>(s, e). py_range s e) spans))"
proof (induction spans arbitrary: w)
  case Nil
  show ?case by simp
next
  case (Cons se spans)
  obtain s e where se: "se = (s, e)" by (cases se)
  from get_volume_range_ok [of sid s e w] obtain vs w' where
    g: "get_volume_range sid s e w = (Inr vs, w')" by blast
  have v: "volume_pages sid (se # spans) w =
          (vs # fst (volume_pages sid spans w'), snd (volume_pages sid spans w'))"
    using g se by (simp split: prod.splits)
  show ?case
    unfolding v by (simp add: se page_names [OF g] Cons.IH)
qed

lemma py_range_nat: "py_range 0 k = map int [0..<nat k]"
  by (rule nth_equalityI) (simp_all add: py_range_length py_range_nth)

lemma spans_cover:
  assumes "(1::int) \<le> p" "(k - 1) * p < n" "m \<le> nat k"
  shows "concat (map (\<lambda>j. py_range (int j * p) (min ((int j + 1) * p) n)) [0..<m]) =
         py_range 0 (min (int m * p) n)"
  using assms(3)
proof (induction m)
  case 0
  show ?case by (simp add: py_range_def)
next
  case (Suc m)
  then have m: "int m \<le> k - 1" by simp
  then have "int m * p \<le> (k - 1) * p" using assms(1) by (intro mult_right_mono) simp_all
  define a where "a = int m * p"
  from \<open>int m * p \<le> (k - 1) * p\<close> assms(2) have lt: "a < n" by (simp add: a_def)
  have nn: "0 \<le> a" using assms(1) by (simp add: a_def)
  have step: "(int m + 1) * p = a + p" by (simp add: distrib_right a_def)
  from Suc have ih: "concat (map (\<lambda>j. py_range (int j * p) (min ((int j + 1) * p) n)) [0..<m]) =
         py_range 0 a"
    using lt by (simp add: a_def)
  have "concat (map (\<lambda>j. py_range (int j * p) (min ((int j + 1) * p) n)) [0..<Suc m]) =
        py_range 0 a @ py_range a (min (a + p) n)"
    by (simp add: ih step a_def [symmetric])
  also have "\<dots> = py_range 0 (min (a + p) n)"
    using nn lt assms(1) by (intro py_range_append) simp_all
  finally have "concat (map (\<lambda>j. py_range (int j * p) (min ((int j + 1) * p) n)) [0..<Suc m]) =
        py_range 0 (min (a + p) n)" .
  moreover have "int (Suc m) * p = a + p" by (simp add: a_def distrib_right)
  ultimately show ?case by (simp only:)
qed

lemma page_spans_cover:
  assumes "0 \<le> n" "1 \<le> p"
  shows "concat (map (\<lambda>(s, e). py_range s e) (page_spans n p)) = py_range 0 n"
proof -
  define k where "k = \<lceil>(of_int n :: rat) / of_int p\<rceil>"
  from ceiling_pages [OF assms] have k: "0 \<le> k" "n \<le> k * p" "(k - 1) * p < n"
    by (simp_all add: k_def)
  have "concat (map (\<lambda>(s, e). py_range s e) (page_spans n p)) =
        concat (map (\<lambda>j. py_range (int j * p) (min ((int j + 1) * p) n)) [0..<nat k])"
    by (simp add: page_spans_def k_def [symmetric] py_range_nat comp_def)
  also have "\<dots> = py_range 0 (min (int (nat k) * p) n)"
    by (rule spans_cover [OF assms(2) k(3)]) simp
  also have "\<dots> = py_range 0 n" using k(1,2) by simp
  finally show ?thesis .
qed

lemma list_volumes_names:
  assumes "0 \<le> n" "1 \<le> p"
  shows "\<forall>j<nat n. map_of (concat (fst (volume_pages sid (page_spans n p) w)) ! j) ''name'' =
           Some (PyStr (''fake_vol_'' @ py_str (int j)))"
proof (intro allI impI)
  fix j assume j: "j < nat n"
  let ?vols = "concat (fst (volume_pages sid (page_spans n p) w))"
  have e: "map (\<lambda>d. map_of d ''name'') ?vols = map volume_name (py_range 0 n)"
    by (simp add: volume_pages_names page_spans_cover [OF assms])
  then have "length (map (\<lambda>d. map_of d ''name'') ?vols) = length (map volume_name (py_range 0 n))"
    by (simp only:)
  then have "length ?vols = nat n" by (simp add: py_range_length)
  with j have "map_of (?vols ! j) ''name'' = map (\<lambda>d. map_of d ''name'') ?vols ! j" by simp
  also have "\<dots> = volume_name (int j)" using j by (simp add: e py_range_length py_range_nth)
  finally show "map_of (?vols ! j) ''name'' = Some (PyStr (''fake_vol_'' @ py_str (int j)))"
    by (simp add: volume_name_def)
qed

text \<open>
  The pages of \<open>list_volumes\<close> when the quotient is exact enough: the drawn count \<open>n\<close> is not
  negative and below \<open>2 ^ 53\<close>, the page limit \<open>p\<close> is at least 1 and below \<open>2 ^ 1075\<close>. Then
  the result is the concatenation, in page order, of the pages that \<open>_get_volume_range\<close>
  returns on the spans of \<open>page_spans n p\<close>; it has exactly \<open>n\<close> records; there are
  \<open>ceil(n / p)\<close> pages (and as many sleeps); every page but the last has \<open>p\<close> records and the
  last has the remainder; for \<open>n = 0\<close> there is no page; record \<open>j\<close> is the volume
  \<open>fake_vol_j\<close>.
\<close>

lemma list_volumes_pages_in_range:
  assumes "randint (MIN_VOLUME (gl w)) (MAX_VOLUME (gl w)) w = (Inr n, w1)"
    and "0 \<le> n" and "1 \<le> PAGE_LIMIT (gl w)"
    and "n < 2 ^ 53" and "PAGE_LIMIT (gl w) < 2 ^ 1075"
  shows "\<exists>pages w'.
     volume_pages storage_id (page_spans n (PAGE_LIMIT (gl w))) w1 = (pages, w') \<and>
     list_volumes storage_id ctx w = (Inr (concat pages), w') \<and>
     length (concat pages) = nat n \<and>
     int (length pages) = \<lceil>(of_int n :: rat) / of_int (PAGE_LIMIT (gl w))\<rceil> \<and>
     (\<forall>i. Suc i < length pages \<longrightarrow> int (length (pages ! i)) = PAGE_LIMIT (gl w)) \<and>
     (pages \<noteq> [] \<longrightarrow>
        int (length (last pages)) = n - (int (length pages) - 1) * PAGE_LIMIT (gl w)) \<and>
     (n = 0 \<longrightarrow> pages = []) \<and>
     length (slept w') = length (slept w) + length pages \<and>
     (\<forall>j<nat n. map_of (concat pages ! j) ''name'' =
                  Some (PyStr (''fake_vol_'' @ py_str (int j))))"
proof -
  define p where "p = PAGE_LIMIT (gl w)"
  define k where "k = \<lceil>(of_int n :: rat) / of_int p\<rceil>"
  define b where "b = (\<lambda>idx. (idx * p, if idx = k - 1 then n else (idx + 1) * p))"
  define pages where "pages = fst (volume_pages storage_id (page_spans n p) w1)"
  define w' where "w' = snd (volume_pages storage_id (page_spans n p) w1)"
  have p1: "1 \<le> p" using assms(3) by (simp add: p_def)
  from ceiling_pages [OF assms(2) p1] have k: "0 \<le> k" "n \<le> k * p" "(k - 1) * p < n"
    by (simp_all add: k_def)
  from randint_bounds [OF assms(1)] have w1: "w1 = skip 1 w" by simp
  have spans: "map b (py_range 0 k) = page_spans n p"
    unfolding page_spans_def k_def [symmetric]
    by (rule map_cong [OF refl]) (simp add: b_def py_range_set span_end [OF p1 k(2,3)])
  have c: "ceil_div n p w1 = (Inr k, w1)"
    unfolding k_def using assms(2,4) p1 assms(5) [folded p_def] by (rule ceil_div_exact)
  have "list_volumes storage_id ctx w =
          for_loop (py_range 0 k) (\<lambda>idx volume_list.
             py_bind (get_volume_range storage_id (fst (b idx)) (snd (b idx))) (\<lambda>vs.
             py_return (volume_list @ vs))) [] w1"
    unfolding list_volumes_def p_def [symmetric]
    by (simp add: py_bind_Inr [where m = "randint (MIN_VOLUME (gl w)) (MAX_VOLUME (gl w))", OF assms(1)]
        py_bind_Inr [where m = "ceil_div n p", OF c] Let_def b_def)
  also have "\<dots> = (Inr (concat pages), w')"
    by (simp add: volume_loop_pages spans pages_def w'_def)
  finally have lv: "list_volumes storage_id ctx w = (Inr (concat pages), w')" .
  have vp: "volume_pages storage_id (page_spans n p) w1 = (pages, w')"
    by (simp add: pages_def w'_def)
  have len_spans: "length (page_spans n p) = nat k"
    by (simp add: page_spans_def py_range_length k_def)
  have nth_span: "\<And>i. i < nat k \<Longrightarrow>
      page_spans n p ! i = (int i * p, min ((int i + 1) * p) n)"
    by (simp add: page_spans_def k_def [symmetric] py_range_length py_range_nth)
  from volume_pages_props [of storage_id "page_spans n p" w1] have
    len: "length pages = nat k" and
    each: "\<And>i. i < nat k \<Longrightarrow> length (pages ! i) = nat (min ((int i + 1) * p) n - int i * p)" and
    sl: "length (slept w') = length (slept w) + length pages"
    by (simp_all add: pages_def w'_def len_spans nth_span w1 skip_fields)
  have total: "length (concat pages) = nat n"
  proof -
    have "length (concat pages) = (\<Sum>i<nat k. length (pages ! i))"
      by (simp add: length_concat sum_list_sum_nth len atLeast0LessThan)
    also have "\<dots> = (\<Sum>i<nat k. nat (min ((int i + 1) * p) n - int i * p))"
      by (rule sum.cong) (simp_all add: each)
    also have "\<dots> = nat (min (int (nat k) * p) n)"
      by (rule span_sum [OF p1 k(3)]) simp
    also have "\<dots> = nat n" using k(1,2) by simp
    finally show ?thesis .
  qed
  have lenk: "int (length pages) = k" using len k(1) by simp
  have full: "\<forall>i. Suc i < length pages \<longrightarrow> int (length (pages ! i)) = p"
  proof (intro allI impI)
    fix i assume i: "Suc i < length pages"
    then have ik: "int i + 1 \<le> k - 1" using len by linarith
    then have "(int i + 1) * p \<le> (k - 1) * p" using p1 by (intro mult_right_mono) simp_all
    with k(3) have "min ((int i + 1) * p) n = (int i + 1) * p" by simp
    moreover have "i < nat k" using i len by simp
    ultimately have "length (pages ! i) = nat ((int i + 1) * p - int i * p)"
      by (simp add: each)
    also have "(int i + 1) * p - int i * p = p" by (simp add: distrib_right)
    finally show "int (length (pages ! i)) = p" using p1 by simp
  qed
  have lastp: "pages \<noteq> [] \<longrightarrow> int (length (last pages)) = n - (int (length pages) - 1) * p"
  proof
    assume ne: "pages \<noteq> []"
    then have kp: "0 < nat k" using len by (cases pages) simp_all
    then have i: "int (nat k - 1) = k - 1" by simp
    have "last pages = pages ! (nat k - 1)" using ne len by (simp add: last_conv_nth)
    then have "length (last pages) = nat (min ((int (nat k - 1) + 1) * p) n - int (nat k - 1) * p)"
      using kp by (simp add: each)
    also have "\<dots> = nat (n - (k - 1) * p)" unfolding i using k(2) by simp
    finally show "int (length (last pages)) = n - (int (length pages) - 1) * p"
      using k(3) lenk by simp
  qed
  have zero: "n = 0 \<longrightarrow> pages = []"
  proof
    assume "n = 0"
    then have "k = 0" by (simp add: k_def)
    with len show "pages = []" by simp
  qed
  have names: "\<forall>j<nat n. map_of (concat pages ! j) ''name'' =
                  Some (PyStr (''fake_vol_'' @ py_str (int j)))"
    using list_volumes_names [OF assms(2) p1, of storage_id w1] by (simp add: pages_def)
  show ?thesis
    using vp lv total lenk full lastp zero sl names
    unfolding k_def p_def
    by (intro exI [of _ pages] exI [of _ w']) (simp only: simp_thms)
qed

lemma world1_randint:
  "randint (MIN_VOLUME (gl world1)) (MAX_VOLUME (gl world1)) world1 = (Inr 1200, skip 1 world1)"
  by (simp add: randint_ok world1_def world0_def module_level_def)

lemma world1_page_limit: "PAGE_LIMIT (gl world1) = 500"
  by (simp add: world1_def world0_def module_level_def)

text \<open>A count of 1200 with the default page limit 500: pages of 500, 500 and 200 records.\<close>

lemma list_volumes_pages_example:
  "randint (MIN_VOLUME (gl world1)) (MAX_VOLUME (gl world1)) world1 = (Inr 1200, skip 1 world1) \<and>
   (0::int) \<le> 1200 \<and> 1 \<le> PAGE_LIMIT (gl world1) \<and>
   (\<exists>pages w'. list_volumes ''s'' () world1 = (Inr (concat pages), w') \<and>
      length (concat pages) = 1200 \<and> length pages = 3 \<and>
      length (pages ! 0) = 500 \<and> length (pages ! 1) = 500 \<and> length (last pages) = 200)"
proof -
  have h: "(0::int) \<le> 1200" "1 \<le> PAGE_LIMIT (gl world1)"
    "(1200::int) < 2 ^ 53" "PAGE_LIMIT (gl world1) < 2 ^ 1075"
    by (simp_all add: world1_page_limit)
  from list_volumes_pages_in_range [OF world1_randint h, of "''s''" "()"] obtain pages w' where
    p: "list_volumes ''s'' () world1 = (Inr (concat pages), w')"
      "length (concat pages) = nat 1200"
      "int (length pages) = \<lceil>(of_int 1200 :: rat) / of_int (PAGE_LIMIT (gl world1))\<rceil>"
      "\<forall>i. Suc i < length pages \<longrightarrow> int (length (pages ! i)) = PAGE_LIMIT (gl world1)"
      "pages \<noteq> [] \<longrightarrow>
        int (length (last pages)) = 1200 - (int (length pages) - 1) * PAGE_LIMIT (gl world1)"
    by blast
  have "\<lceil>(of_int 1200 :: rat) / of_int 500\<rceil> = 3"
    by (rule ceiling_unique) simp_all
  with p(3) have l: "length pages = 3" by (simp only: world1_page_limit)
  with p(4) have "int (length (pages ! 0)) = 500" "int (length (pages ! 1)) = 500"
    by (simp_all add: world1_page_limit)
  moreover from l p(5) have "int (length (last pages)) = 200"
    by (cases pages) (simp_all add: world1_page_limit)
  ultimately show ?thesis
    using p(1,2) l h(1,2) world1_randint by (intro conjI exI [of _ pages] exI [of _ w']) simp_all
qed

lemma digits_nat_zeros: "digits_nat (replicate k (CHR ''0'')) acc = Some (acc * 10 ^ k)"
  by (induction k arbitrary: acc) (simp_all add: digit_val_def)

lemma huge_page_limit: "py_int (CHR ''1'' # replicate 400 (CHR ''0'')) = Some huge_limit"
proof -
  have d: "digits_nat (CHR ''1'' # replicate 400 (CHR ''0'')) 0 = Some (10 ^ 400)"
    by (simp add: digit_val_def digits_nat_zeros)
  have "py_int (CHR ''1'' # replicate 400 (CHR ''0'')) =
          map_option int (digits_nat (CHR ''1'' # replicate 400 (CHR ''0'')) 0)"
    by (simp add: py_int_def del: digits_nat.simps)
  also have "\<dots> = Some huge_limit"
    unfolding d by (simp add: huge_limit_def)
  finally show ?thesis .
qed

lemma range_1_1: "get_range_val ''1-1'' py_int = Inr (1, 1)"
  by (simp add: get_range_val_def get_range_val_try_def py_int_def digit_val_def)

lemma init_huge_page:
  "FakeStorageDriver_init py_float py_int huge_page_conf w =
     (Inr (), w\<lparr>gl := \<lparr>MIN_WAIT = 1 / 10, MAX_WAIT = 1 / 2, MIN_POOL = 1, MAX_POOL = 100,
                        MIN_VOLUME = 1, MAX_VOLUME = 1, PAGE_LIMIT = huge_limit\<rparr>\<rparr>)"
  by (rule init_ok)
    (simp_all add: huge_page_conf_def default_conf_def default_ranges range_1_1 huge_page_limit)

lemma huge_page_world_gl:
  "MIN_VOLUME (gl huge_page_world) = 1" "MAX_VOLUME (gl huge_page_world) = 1"
  "PAGE_LIMIT (gl huge_page_world) = huge_limit"
  by (simp_all add: huge_page_world_def init_huge_page)

lemma tiny_quotient: "of_int 1 / of_int huge_limit < power_int (2::rat) (- 1075)"
proof -
  have e: "(1075::nat) = 43 * 25" "(400::nat) = 16 * 25" by simp_all
  have "(2::rat) ^ 43 < 10 ^ 16" by simp
  then have "((2::rat) ^ 43) ^ 25 < (10 ^ 16) ^ 25" by (intro power_strict_mono) simp_all
  then have lt: "(2::rat) ^ 1075 < 10 ^ 400" unfolding e by (simp only: power_mult)
  have p2: "(0::rat) < 2 ^ 1075" by (rule zero_less_power) simp
  have p10: "(0::rat) < 10 ^ 400" by (rule zero_less_power) simp
  have "1 / (10::rat) ^ 400 < 1 / 2 ^ 1075"
    by (rule divide_strict_left_mono [OF lt zero_less_one mult_pos_pos [OF p10 p2]])
  moreover have "(of_int huge_limit :: rat) = 10 ^ 400"
    by (simp only: huge_limit_def of_int_power of_int_numeral)
  moreover have "power_int (2::rat) (- 1075) = 1 / 2 ^ 1075"
    by (simp only: power_int_minus power_int_numeral inverse_eq_divide)
  ultimately show ?thesis by (simp only: of_int_1)
qed

text \<open>
  Claim C1 on the code. A driver constructed with the volume range \<open>1-1\<close> and the page limit
  \<open>10 ^ 400\<close> (\<open>huge_limit\<close>) draws the volume count 1, and \<open>list_volumes\<close> returns the empty list: the
  quotient \<open>1 / 10 ^ 400\<close> is the double 0.0, its ceiling is 0 and the loop over the pages
  does not run.
\<close>

theorem list_volumes_huge_page_limit:
  "fst (FakeStorageDriver_init py_float py_int huge_page_conf world0) = Inr () \<and>
   MIN_VOLUME (gl huge_page_world) = 1 \<and> MAX_VOLUME (gl huge_page_world) = 1 \<and>
   PAGE_LIMIT (gl huge_page_world) = huge_limit \<and> huge_limit = 10 ^ 400 \<and>
   fst (randint (MIN_VOLUME (gl huge_page_world)) (MAX_VOLUME (gl huge_page_world))
          huge_page_world) = Inr 1 \<and>
   fst (list_volumes ''s'' () huge_page_world) = Inr []"
proof -
  have r: "randint 1 1 huge_page_world = (Inr 1, skip 1 huge_page_world)"
    by (simp add: randint_ok)
  have q: "py_truediv 1 huge_limit = Inr 0"
    by (rule py_truediv_underflow [OF _ _ tiny_quotient]) (simp_all add: huge_limit_def)
  have c: "\<And>w. ceil_div 1 huge_limit w = (Inr 0, w)"
    by (simp add: ceil_div_def py_bind_def lift_result_def py_return_def q)
  have "list_volumes ''s'' () huge_page_world = (Inr [], skip 1 huge_page_world)"
    unfolding list_volumes_def huge_page_world_gl
    by (simp add: py_bind_Inr [where m = "randint 1 1", OF r]
        py_bind_Inr [where m = "ceil_div 1 huge_limit", OF c] py_range_def)
  moreover have "huge_limit = 10 ^ 400" by (simp only: huge_limit_def)
  ultimately show ?thesis
    by (simp only: huge_page_world_gl r init_huge_page fst_conv simp_thms)
qed

end
